theory Spec2Isabelle
  imports Complex_Main
begin

section \<open>Coupon campaign optimisation: the notebook \<open>simple_opt.ipynb\<close>\<close>

text \<open>
  The notebook generates a synthetic table of customers, assigns coupons by a baseline
  rule (BAU), formulates an integer program with PuLP and compares the expected returns.
  Numbers are exact reals here: Python's binary floating point is not modelled, so sums and
  products are the mathematical ones. Where an integer result depends on the rounding of a
  floating-point product (the BAU coupon), the properties are stated for the inputs on
  which the exact and the floating-point computation give the same integer.
\<close>

subsection \<open>Errors raised by the Python code\<close>

datatype py_error = IndexError | KeyError | ValueError

subsection \<open>The customer table\<close>

text \<open>
  A pandas data frame with the columns \<open>prob_coupon_{j}\<close> (one per coupon value \<open>j\<close>, kept
  here by the integer \<open>j\<close> of the label, in column order) and \<open>cltv\<close>. A row holds the
  entries of the probability columns by position, and the CLTV. The index of the frame is
  \<open>0, 1, ..., n - 1\<close>.
\<close>

record customer =
  probs :: "real list"
  cltv :: real

record dataframe =
  coupon_cols :: "int list"
  rows :: "customer list"

text \<open>
  Every row of a frame has one entry per column, and label-based access addresses one
  column only when the labels are distinct.
\<close>

definition wf_df :: "dataframe \<Rightarrow> bool" where
  "wf_df df \<longleftrightarrow>
     distinct (coupon_cols df) \<and>
     list_all (\<lambda>r. length (probs r) = length (coupon_cols df)) (rows df)"

subsection \<open>Library functions used by \<open>create_customers\<close>\<close>

text \<open>\<open>np.arange(a, b, 1)\<close> on integers: \<open>a, a + 1, ..., b - 1\<close>, empty when \<open>b \<le> a\<close>.\<close>

definition np_arange :: "int \<Rightarrow> int \<Rightarrow> int list" where
  "np_arange a b = [a..b - 1]"

text \<open>
  \<open>random.choices(population, k=k)\<close> is the comprehension
  \<open>[population[floor(random() * n)] for i in repeat(None, k)]\<close> with \<open>n = len(population)\<close>.
  The random source is the sequence \<open>rnd\<close> of the values that successive calls of
  \<open>random()\<close> return (each in \<open>[0, 1)\<close>); \<open>s\<close> counts the calls made so far. Indexing out
  of range raises \<open>IndexError\<close>; \<open>repeat(None, k)\<close> is empty for \<open>k \<le> 0\<close>.
\<close>

fun draws :: "(nat \<Rightarrow> real) \<Rightarrow> nat \<Rightarrow> 'a list \<Rightarrow> nat \<Rightarrow> py_error + 'a list" where
  "draws rnd s population 0 = Inr []"
| "draws rnd s population (Suc k) =
     (let idx = nat \<lfloor>rnd s * real (length population)\<rfloor> in
      if idx < length population then
        (case draws rnd (Suc s) population k of
           Inl e \<Rightarrow> Inl e
         | Inr xs \<Rightarrow> Inr (population ! idx # xs))
      else Inl IndexError)"

definition choices :: "(nat \<Rightarrow> real) \<Rightarrow> nat \<Rightarrow> 'a list \<Rightarrow> int \<Rightarrow> py_error + ('a list \<times> nat)" where
  "choices rnd s population k =
     (case draws rnd s population (nat k) of
        Inl e \<Rightarrow> Inl e
      | Inr xs \<Rightarrow> Inr (xs, s + nat k))"

subsection \<open>\<open>create_customers\<close>\<close>

text \<open>\<open>mults = np.arange(1, n, 1)/100\<close> and \<open>cltvs = np.arange(30, 120, 1)\<close>.\<close>

definition mults :: "int \<Rightarrow> real list" where
  "mults n = map (\<lambda>k. real_of_int k / 100) (np_arange 1 n)"

definition cltvs :: "int list" where
  "cltvs = np_arange 30 120"

text \<open>
  The row of customer \<open>i\<close>:
  \<open>probs = [j*randommults[i] for j in np.arange(1, len(c)+1, 1)]\<close>, then the CLTV.
  The row is stored by \<^verbatim>\<open>customers_df.loc[i, cols_prob_coupon+['cltv']] = np.array(probs)\<close>;
  pandas raises \<open>ValueError\<close> there when the labels are not distinct, so with repeated
  coupons in \<open>c\<close> the assignment of the first customer fails. Without customers
  (\<open>n \<le> 0\<close>) nothing is assigned.
\<close>

definition customer_row :: "real list \<Rightarrow> int list \<Rightarrow> int list \<Rightarrow> nat \<Rightarrow> customer" where
  "customer_row randommults randomcltvs c i =
     \<lparr>probs = map (\<lambda>j. real_of_int j * randommults ! i) (np_arange 1 (int (length c) + 1)),
      cltv = real_of_int (randomcltvs ! i)\<rparr>"

definition create_customers :: "(nat \<Rightarrow> real) \<Rightarrow> int \<Rightarrow> int list \<Rightarrow> py_error + dataframe" where
  "create_customers rnd n c =
     (case choices rnd 0 (mults n) n of
        Inl e \<Rightarrow> Inl e
      | Inr (randommults, s) \<Rightarrow>
          (case choices rnd s cltvs n of
             Inl e \<Rightarrow> Inl e
           | Inr (randomcltvs, s') \<Rightarrow>
               (if 0 < n \<and> \<not> distinct c then Inl ValueError
                else Inr \<lparr>coupon_cols = c,
                         rows = map (customer_row randommults randomcltvs c) [0..<nat n]\<rparr>)))"

text \<open>A random source: every value lies in \<open>[0, 1)\<close>.\<close>

definition unit_interval :: "(nat \<Rightarrow> real) \<Rightarrow> bool" where
  "unit_interval rnd \<longleftrightarrow> (\<forall>k. 0 \<le> rnd k \<and> rnd k < 1)"

subsection \<open>The BAU baseline (cells 4 and 5)\<close>

text \<open>
  \<open>coupons = [int(col.split('_')[-1]) for col in df.columns if 'cltv' not in col]\<close>:
  the coupon values of the probability columns, in column order.
\<close>

definition coupons :: "dataframe \<Rightarrow> int list" where
  "coupons df = coupon_cols df"

text \<open>
  \<open>round\<close> of a pandas series is numpy's rounding: to the nearest integer, a tie going
  to the even neighbour.
\<close>

definition round_half_even :: "real \<Rightarrow> int" where
  "round_half_even v =
     (let f = \<lfloor>v\<rfloor>; r = v - real_of_int f in
      if r < 1 / 2 then f
      else if 1 / 2 < r then f + 1
      else if even f then f else f + 1)"

text \<open>
  \<open>coupons_bau = np.array(round(df['cltv']*0.1)).astype(int)\<close>. The code multiplies in
  binary floating point and casts the rounded value to a machine integer; the exact
  computation below gives the same coupon for an integer-valued CLTV of absolute value at
  most \<open>2\<^sup>3\<^sup>1\<close> (there the floating-point product lies on the same side of every tie as
  the exact one, is the tie itself when the exact product is, and the cast is exact), and
  is used for such values only: the CLTV that \<open>create_customers\<close> draws are the integers
  \<open>30, ..., 119\<close>.
\<close>

definition coupons_bau :: "dataframe \<Rightarrow> int list" where
  "coupons_bau df = map (\<lambda>r. round_half_even (cltv r * (1 / 10))) (rows df)"

definition integer_cltv :: "customer \<Rightarrow> bool" where
  "integer_cltv r \<longleftrightarrow> cltv r \<in> \<int> \<and> \<bar>cltv r\<bar> \<le> 2 ^ 31"

definition integer_cltvs :: "dataframe \<Rightarrow> bool" where
  "integer_cltvs df \<longleftrightarrow> list_all integer_cltv (rows df)"

text \<open>
  \<open>x['prob_coupon_{}'.format(j)]\<close> on a row \<open>x\<close>: the entry of the column labelled \<open>j\<close>,
  \<open>KeyError\<close> when there is no such column.
\<close>

definition row_getitem :: "int list \<Rightarrow> customer \<Rightarrow> int \<Rightarrow> py_error + real" where
  "row_getitem cols r j =
     (case map_of (zip cols (probs r)) j of
        None \<Rightarrow> Inl KeyError
      | Some p \<Rightarrow> Inr p)"

text \<open>
  A comprehension (or \<open>df.apply\<close> along the rows) whose body may raise: the first error
  ends it.
\<close>

fun comprehension :: "('a \<Rightarrow> py_error + 'b) \<Rightarrow> 'a list \<Rightarrow> py_error + 'b list" where
  "comprehension f [] = Inr []"
| "comprehension f (y # ys) =
     (case f y of
        Inl e \<Rightarrow> Inl e
      | Inr v \<Rightarrow> (case comprehension f ys of Inl e \<Rightarrow> Inl e | Inr vs \<Rightarrow> Inr (v # vs)))"

text \<open>
  \<open>df['prob_coupon_bau'] = df.apply(lambda x: x['prob_coupon_{}'.format(int(x['coupon_bau']))], axis=1)\<close>.
  On a frame without rows \<open>df.apply\<close> does not call the function and returns a frame, and
  the assignment of a frame to the one column raises \<open>ValueError\<close>.
\<close>

definition prob_coupon_bau :: "dataframe \<Rightarrow> py_error + real list" where
  "prob_coupon_bau df =
     (if rows df = [] then Inl ValueError
      else comprehension (\<lambda>(r, k). row_getitem (coupon_cols df) r k)
             (zip (rows df) (coupons_bau df)))"

text \<open>\<open>df['roi_bau'] = df['prob_coupon_bau']*(df['cltv'] - df['coupon_bau'])\<close>\<close>

definition roi_bau :: "dataframe \<Rightarrow> py_error + real list" where
  "roi_bau df =
     (case prob_coupon_bau df of
        Inl e \<Rightarrow> Inl e
      | Inr ps \<Rightarrow>
          Inr (map (\<lambda>(p, r, k). p * (cltv r - real_of_int k))
                 (zip ps (zip (rows df) (coupons_bau df)))))"

text \<open>\<open>ROI_BAU = df['roi_bau'].sum()\<close>\<close>

definition ROI_BAU :: "dataframe \<Rightarrow> py_error + real" where
  "ROI_BAU df = (case roi_bau df of Inl e \<Rightarrow> Inl e | Inr rs \<Rightarrow> Inr (sum_list rs))"

subsection \<open>PuLP: variables, affine expressions, constraints, problems\<close>

text \<open>
  The parts of the PuLP library that the notebook calls. A variable is created under the
  name \<open>x_{i}_{j}\<close>; the name is kept as the pair \<open>(i, j)\<close>.
\<close>

type_synonym var_key = "nat \<times> int"

datatype lp_category = LpContinuous | LpInteger | LpBinary

datatype lp_sense = LpMinimize | LpMaximize

datatype lp_constraint_sense = LpConstraintLE | LpConstraintEQ | LpConstraintGE

record lp_variable =
  var_name :: var_key
  cat :: lp_category
  lowBound :: "real option"
  upBound :: "real option"

definition LpVariable :: "lp_category \<Rightarrow> real \<Rightarrow> real \<Rightarrow> var_key \<Rightarrow> lp_variable" where
  "LpVariable category lo up name =
     \<lparr>var_name = name, cat = category, lowBound = Some lo, upBound = Some up\<rparr>"

text \<open>
  \<open>LpAffineExpression\<close>: an ordered dictionary from variables to coefficients, and a
  constant.
\<close>

record lp_affine =
  expr_terms :: "(lp_variable \<times> real) list"
  expr_constant :: real

definition empty_expr :: lp_affine where
  "empty_expr = \<lparr>expr_terms = [], expr_constant = 0\<rparr>"

text \<open>\<open>LpAffineExpression(v)\<close> for a variable \<open>v\<close>.\<close>

definition var_expr :: "lp_variable \<Rightarrow> lp_affine" where
  "var_expr v = \<lparr>expr_terms = [(v, 1)], expr_constant = 0\<rparr>"

text \<open>\<open>addterm(key, value)\<close>: add to the coefficient of a key, or enter the key last.\<close>

fun addterm :: "lp_variable \<Rightarrow> real \<Rightarrow> (lp_variable \<times> real) list \<Rightarrow> (lp_variable \<times> real) list" where
  "addterm v x [] = [(v, x)]"
| "addterm v x ((w, y) # ts) = (if v = w then (w, y + x) # ts else (w, y) # addterm v x ts)"

definition addInPlace :: "lp_affine \<Rightarrow> lp_affine \<Rightarrow> lp_affine" where
  "addInPlace self other =
     \<lparr>expr_terms = fold (\<lambda>(v, x) ts. addterm v x ts) (expr_terms other) (expr_terms self),
      expr_constant = expr_constant self + expr_constant other\<rparr>"

text \<open>\<open>lpSum(vector)\<close> is \<open>LpAffineExpression().addInPlace(vector)\<close>.\<close>

definition lpSum :: "lp_affine list \<Rightarrow> lp_affine" where
  "lpSum vector = fold (\<lambda>e self. addInPlace self e) vector empty_expr"

text \<open>
  An expression times a number: the coefficients are scaled, and a factor of zero gives
  the empty expression.
\<close>

definition mul_number :: "lp_affine \<Rightarrow> real \<Rightarrow> lp_affine" where
  "mul_number self other =
     (if other \<noteq> 0 then
        \<lparr>expr_terms = map (\<lambda>(v, x). (v, other * x)) (expr_terms self),
         expr_constant = expr_constant self * other\<rparr>
      else empty_expr)"

text \<open>The value of an expression when each variable \<open>x_{i}_{j}\<close> has the value \<open>val (i, j)\<close>.\<close>

definition expr_value :: "(var_key \<Rightarrow> real) \<Rightarrow> lp_affine \<Rightarrow> real" where
  "expr_value val e = (\<Sum>(v, x)\<leftarrow>expr_terms e. x * val (var_name v)) + expr_constant e"

text \<open>
  Constraint names: \<open>constraint_{i}\<close> for a user \<open>i\<close>, and \<open>constraint_b\<close>.
\<close>

datatype constraint_name = ConstraintUser nat | ConstraintB

text \<open>
  \<open>LpConstraint(e, sense, name, rhs)\<close> is the expression \<open>e - rhs\<close> compared with zero.
\<close>

record lp_constraint =
  con_name :: constraint_name
  con_expr :: lp_affine
  con_sense :: lp_constraint_sense

definition LpConstraint ::
    "lp_affine \<Rightarrow> lp_constraint_sense \<Rightarrow> real \<Rightarrow> constraint_name \<Rightarrow> lp_constraint" where
  "LpConstraint e sense rhs name =
     \<lparr>con_name = name,
      con_expr = e\<lparr>expr_constant := expr_constant e - rhs\<rparr>,
      con_sense = sense\<rparr>"

definition constraint_valid :: "(var_key \<Rightarrow> real) \<Rightarrow> lp_constraint \<Rightarrow> bool" where
  "constraint_valid val con =
     (case con_sense con of
        LpConstraintLE \<Rightarrow> expr_value val (con_expr con) \<le> 0
      | LpConstraintEQ \<Rightarrow> expr_value val (con_expr con) = 0
      | LpConstraintGE \<Rightarrow> 0 \<le> expr_value val (con_expr con))"

text \<open>
  \<open>LpProblem\<close>: the constraints by name in the order added, the sense (minimisation when
  a problem is created) and the objective.
\<close>

record lp_problem =
  prob_constraints :: "(constraint_name \<times> lp_constraint) list"
  prob_sense :: lp_sense
  prob_objective :: "lp_affine option"

definition LpProblem :: lp_problem where
  "LpProblem = \<lparr>prob_constraints = [], prob_sense = LpMinimize, prob_objective = None\<rparr>"

text \<open>\<open>addConstraint\<close> refuses a name that the problem already has.\<close>

datatype pulp_error = PulpError

definition addConstraint :: "lp_problem \<Rightarrow> lp_constraint \<Rightarrow> pulp_error + lp_problem" where
  "addConstraint p con =
     (if con_name con \<in> fst ` set (prob_constraints p) then Inl PulpError
      else Inr (p\<lparr>prob_constraints := prob_constraints p @ [(con_name con, con)]\<rparr>))"

text \<open>
  The variables of a problem (\<open>LpProblem.variables()\<close>): those of the objective and of the
  constraints.
\<close>

definition problem_variables :: "lp_problem \<Rightarrow> lp_variable set" where
  "problem_variables p =
     (case prob_objective p of None \<Rightarrow> {} | Some obj \<Rightarrow> fst ` set (expr_terms obj)) \<union>
     (\<Union>(name, con)\<in>set (prob_constraints p). fst ` set (expr_terms (con_expr con)))"

subsection \<open>Python dictionaries\<close>

definition dict_get :: "('k \<rightharpoonup> 'v) \<Rightarrow> 'k \<Rightarrow> py_error + 'v" where
  "dict_get m k = (case m k of None \<Rightarrow> Inl KeyError | Some v \<Rightarrow> Inr v)"

text \<open>Item assignment in an ordered dictionary: an existing key keeps its place.\<close>

fun dict_set :: "'k \<Rightarrow> 'v \<Rightarrow> ('k \<times> 'v) list \<Rightarrow> ('k \<times> 'v) list" where
  "dict_set k v [] = [(k, v)]"
| "dict_set k v ((k', v') # kvs) =
     (if k = k' then (k, v) # kvs else (k', v') # dict_set k v kvs)"

subsection \<open>Users, input matrices (cells 6 and 7)\<close>

text \<open>\<open>set_users = list(df.index)\<close> and \<open>coupons_per_user = {i: coupons for i in set_users}\<close>\<close>

definition set_users :: "dataframe \<Rightarrow> nat list" where
  "set_users df = [0..<length (rows df)]"

definition coupons_per_user :: "dataframe \<Rightarrow> nat \<rightharpoonup> int list" where
  "coupons_per_user df = map_of (map (\<lambda>i. (i, coupons df)) (set_users df))"

text \<open>\<open>df.loc[i]\<close>\<close>

definition df_loc :: "dataframe \<Rightarrow> nat \<Rightarrow> py_error + customer" where
  "df_loc df i = (if i < length (rows df) then Inr (rows df ! i) else Inl KeyError)"

text \<open>\<open>b = (df['cltv'].sum())/10\<close>\<close>

definition budget_b :: "dataframe \<Rightarrow> real" where
  "budget_b df = sum_list (map cltv (rows df)) / 10"

record matrices =
  x_dict :: "var_key \<rightharpoonup> lp_variable"
  a_dict :: "var_key \<rightharpoonup> int"
  c_dict :: "var_key \<rightharpoonup> real"
  d_dict :: "var_key \<rightharpoonup> real"

text \<open>
  The body of the loops:
  \<^verbatim>\<open>x[(i, j)] = plp.LpVariable(cat=plp.LpInteger, lowBound=0, upBound=1, name="x_{0}_{1}".format(i, j))\<close>,
  \<^verbatim>\<open>a[(i, j)] = j\<close>,
  \<^verbatim>\<open>c[(i, j)] = df.loc[i]['prob_coupon_{}'.format(j)]\<close>,
  \<^verbatim>\<open>d[(i,j)] = df.loc[i]['cltv'] - j\<close>.
\<close>

fun matrices_inner :: "dataframe \<Rightarrow> nat \<Rightarrow> int list \<Rightarrow> matrices \<Rightarrow> py_error + matrices" where
  "matrices_inner df i [] m = Inr m"
| "matrices_inner df i (j # js) m =
     (case df_loc df i of
        Inl e \<Rightarrow> Inl e
      | Inr r \<Rightarrow>
          (case row_getitem (coupon_cols df) r j of
             Inl e \<Rightarrow> Inl e
           | Inr p \<Rightarrow>
               matrices_inner df i js
                 \<lparr>x_dict = (x_dict m)((i, j) \<mapsto> LpVariable LpInteger 0 1 (i, j)),
                  a_dict = (a_dict m)((i, j) \<mapsto> j),
                  c_dict = (c_dict m)((i, j) \<mapsto> p),
                  d_dict = (d_dict m)((i, j) \<mapsto> cltv r - real_of_int j)\<rparr>))"

fun matrices_outer :: "dataframe \<Rightarrow> nat list \<Rightarrow> matrices \<Rightarrow> py_error + matrices" where
  "matrices_outer df [] m = Inr m"
| "matrices_outer df (i # us) m =
     (case dict_get (coupons_per_user df) i of
        Inl e \<Rightarrow> Inl e
      | Inr js \<Rightarrow>
          (case matrices_inner df i js m of
             Inl e \<Rightarrow> Inl e
           | Inr m' \<Rightarrow> matrices_outer df us m'))"

definition input_matrices :: "dataframe \<Rightarrow> py_error + matrices" where
  "input_matrices df =
     matrices_outer df (set_users df)
       \<lparr>x_dict = Map.empty, a_dict = Map.empty, c_dict = Map.empty, d_dict = Map.empty\<rparr>"

subsection \<open>Constraints (cell 8)\<close>

text \<open>
  \<^verbatim>\<open>plp.LpConstraint(e=plp.lpSum(x[i, j] for j in coupons_per_user[i]),
       sense=plp.LpConstraintEQ, rhs=1*(len(coupons_per_user[i]) > 0),
       name="constraint_{0}".format(i))\<close>
\<close>

definition user_constraint :: "dataframe \<Rightarrow> matrices \<Rightarrow> nat \<Rightarrow> py_error + lp_constraint" where
  "user_constraint df m i =
     (case dict_get (coupons_per_user df) i of
        Inl e \<Rightarrow> Inl e
      | Inr js \<Rightarrow>
          (case comprehension (\<lambda>j. dict_get (x_dict m) (i, j)) js of
             Inl e \<Rightarrow> Inl e
           | Inr vs \<Rightarrow>
               Inr (LpConstraint (lpSum (map var_expr vs)) LpConstraintEQ
                      (1 * (if 0 < length js then 1 else 0)) (ConstraintUser i))))"

text \<open>The generator \<open>for i in set_users for j in coupons_per_user[i]\<close>.\<close>

definition user_coupon_pairs :: "dataframe \<Rightarrow> py_error + var_key list" where
  "user_coupon_pairs df =
     (case comprehension
             (\<lambda>i. case dict_get (coupons_per_user df) i of
                     Inl e \<Rightarrow> Inl e
                   | Inr js \<Rightarrow> Inr (map (Pair i) js))
             (set_users df) of
        Inl e \<Rightarrow> Inl e
      | Inr pss \<Rightarrow> Inr (concat pss))"

text \<open>
  \<^verbatim>\<open>plp.LpConstraint(e=plp.lpSum(a[i, j] * x[i, j] for i in set_users for j in coupons_per_user[i]),
       sense=plp.LpConstraintLE, rhs=b, name="constraint_b")\<close>
\<close>

definition budget_constraint :: "dataframe \<Rightarrow> matrices \<Rightarrow> py_error + lp_constraint" where
  "budget_constraint df m =
     (case user_coupon_pairs df of
        Inl e \<Rightarrow> Inl e
      | Inr ks \<Rightarrow>
          (case comprehension
                  (\<lambda>k. case dict_get (a_dict m) k of
                          Inl e \<Rightarrow> Inl e
                        | Inr av \<Rightarrow>
                            (case dict_get (x_dict m) k of
                               Inl e \<Rightarrow> Inl e
                             | Inr xv \<Rightarrow> Inr (mul_number (var_expr xv) (real_of_int av))))
                  ks of
             Inl e \<Rightarrow> Inl e
           | Inr es \<Rightarrow> Inr (LpConstraint (lpSum es) LpConstraintLE (budget_b df) ConstraintB)))"

text \<open>
  The dictionary \<open>constraints\<close>: the users' constraints under the keys \<open>i\<close>, then
  \<open>constraints[-1]\<close>, the budget constraint.
\<close>

definition constraints :: "dataframe \<Rightarrow> matrices \<Rightarrow> py_error + (int \<times> lp_constraint) list" where
  "constraints df m =
     (case comprehension
             (\<lambda>i. case user_constraint df m i of
                     Inl e \<Rightarrow> Inl e
                   | Inr con \<Rightarrow> Inr (int i, con))
             (set_users df) of
        Inl e \<Rightarrow> Inl e
      | Inr items \<Rightarrow>
          (case budget_constraint df m of
             Inl e \<Rightarrow> Inl e
           | Inr bc \<Rightarrow> Inr (dict_set (- 1) bc (fold (\<lambda>(k, v) dict. dict_set k v dict) items []))))"

subsection \<open>Objective and problem (cell 9)\<close>

text \<open>
  \<^verbatim>\<open>objective = plp.lpSum(x[i, j] * c[i, j] * d[i,j] for i in set_users for j in coupons_per_user[i])\<close>
\<close>

definition objective :: "dataframe \<Rightarrow> matrices \<Rightarrow> py_error + lp_affine" where
  "objective df m =
     (case user_coupon_pairs df of
        Inl e \<Rightarrow> Inl e
      | Inr ks \<Rightarrow>
          (case comprehension
                  (\<lambda>k. case dict_get (x_dict m) k of
                          Inl e \<Rightarrow> Inl e
                        | Inr xv \<Rightarrow>
                            (case dict_get (c_dict m) k of
                               Inl e \<Rightarrow> Inl e
                             | Inr cv \<Rightarrow>
                                 (case dict_get (d_dict m) k of
                                    Inl e \<Rightarrow> Inl e
                                  | Inr dv \<Rightarrow> Inr (mul_number (mul_number (var_expr xv) cv) dv))))
                  ks of
             Inl e \<Rightarrow> Inl e
           | Inr es \<Rightarrow> Inr (lpSum es)))"

text \<open>
  \<^verbatim>\<open>for k in constraints.keys(): opt_model.addConstraint(constraints[k])\<close>
\<close>

fun add_constraints :: "lp_problem \<Rightarrow> lp_constraint list \<Rightarrow> pulp_error + lp_problem" where
  "add_constraints p [] = Inr p"
| "add_constraints p (con # cons) =
     (case addConstraint p con of
        Inl e \<Rightarrow> Inl e
      | Inr p' \<Rightarrow> add_constraints p' cons)"

text \<open>
  The formulated program: the matrices, the constraints, the objective, then the problem
  with \<open>opt_model.sense = plp.LpMaximize\<close> and \<open>opt_model.setObjective(objective)\<close>.
\<close>

datatype formulation_error = Python py_error | Pulp pulp_error

definition opt_model :: "dataframe \<Rightarrow> formulation_error + lp_problem" where
  "opt_model df =
     (case input_matrices df of
        Inl e \<Rightarrow> Inl (Python e)
      | Inr m \<Rightarrow>
          (case constraints df m of
             Inl e \<Rightarrow> Inl (Python e)
           | Inr cs \<Rightarrow>
               (case objective df m of
                  Inl e \<Rightarrow> Inl (Python e)
                | Inr obj \<Rightarrow>
                    (case add_constraints LpProblem (map snd cs) of
                       Inl e \<Rightarrow> Inl (Pulp e)
                     | Inr p \<Rightarrow> Inr (p\<lparr>prob_sense := LpMaximize, prob_objective := Some obj\<rparr>)))))"

subsection \<open>The optimised policy (cells 10 to 12)\<close>

text \<open>
  The solver is external. Its result is the list \<open>sol\<close> of the variables of the problem,
  each with the pair \<open>(i, j)\<close> read back from its name and its value (\<open>None\<close> when it has
  none). The column \<open>coupon_opt\<close> starts as NaN (\<open>None\<close>) in every row:
  \<^verbatim>\<open>if var.varValue == 1: df.loc[i, 'coupon_opt'] = j\<close>.
  The variables are those of the program (\<open>program_solution\<close>): \<open>i\<close> is an index of the
  table and \<open>j\<close> one of its coupons.
\<close>

definition program_solution :: "dataframe \<Rightarrow> (var_key \<times> real option) list \<Rightarrow> bool" where
  "program_solution df sol \<longleftrightarrow>
     list_all (\<lambda>((i, j), varValue). i < length (rows df) \<and> j \<in> set (coupon_cols df)) sol"

definition coupon_opt :: "(var_key \<times> real option) list \<Rightarrow> nat \<Rightarrow> int option list" where
  "coupon_opt sol n =
     fold (\<lambda>((i, j), varValue) col. if varValue = Some 1 then col[i := Some j] else col)
       sol (replicate n None)"

text \<open>
  \<^verbatim>\<open>df['prob_coupon_opt'] = df.apply(lambda x: x['prob_coupon_{}'.format(int(x['coupon_opt']))], axis=1)\<close>;
  \<open>int\<close> of NaN raises \<open>ValueError\<close>, and so does the assignment on a frame without rows, as
  for \<open>prob_coupon_bau\<close>.
\<close>

definition prob_coupon_opt :: "dataframe \<Rightarrow> int option list \<Rightarrow> py_error + real list" where
  "prob_coupon_opt df col =
     (if rows df = [] then Inl ValueError
      else comprehension
             (\<lambda>(r, k). case k of
                          None \<Rightarrow> Inl ValueError
                        | Some j \<Rightarrow> row_getitem (coupon_cols df) r j)
             (zip (rows df) col))"

text \<open>
  \<open>df['roi_opt'] = df['prob_coupon_opt']*(df['cltv'] - df['coupon_opt'])\<close>; an entry is NaN
  (\<open>None\<close>) where the coupon is.
\<close>

definition roi_opt :: "dataframe \<Rightarrow> int option list \<Rightarrow> py_error + real option list" where
  "roi_opt df col =
     (case prob_coupon_opt df col of
        Inl e \<Rightarrow> Inl e
      | Inr ps \<Rightarrow>
          Inr (map (\<lambda>(p, r, k). case k of
                                  None \<Rightarrow> None
                                | Some j \<Rightarrow> Some (p * (cltv r - real_of_int j)))
                 (zip ps (zip (rows df) col))))"

text \<open>\<open>ROI_OPT = df['roi_opt'].sum()\<close>; the sum of a series skips NaN.\<close>

definition ROI_OPT :: "dataframe \<Rightarrow> int option list \<Rightarrow> py_error + real" where
  "ROI_OPT df col =
     (case roi_opt df col of
        Inl e \<Rightarrow> Inl e
      | Inr rs \<Rightarrow> Inr (sum_list (map (\<lambda>v. case v of None \<Rightarrow> 0 | Some y \<Rightarrow> y) rs)))"

subsection \<open>The data set of the notebook\<close>

text \<open>
  The table \<open>synthetic_users.csv.gz\<close> as the notebook displays it (cell 3), and a part of
  a solver result that agrees with the column \<open>coupon_opt\<close> displayed by cell 11: the ten
  variables with the value 1, and two of the variables with the value 0.
\<close>

definition synthetic_users :: dataframe where
  "synthetic_users =
     \<lparr>coupon_cols = [4, 5, 6, 7, 8, 9, 10, 11],
      rows =
        [\<lparr>probs = [0.06, 0.12, 0.18, 0.24, 0.30, 0.36, 0.42, 0.48], cltv = 98\<rparr>,
         \<lparr>probs = [0.06, 0.12, 0.18, 0.24, 0.30, 0.36, 0.42, 0.48], cltv = 82\<rparr>,
         \<lparr>probs = [0.03, 0.06, 0.09, 0.12, 0.15, 0.18, 0.21, 0.24], cltv = 112\<rparr>,
         \<lparr>probs = [0.01, 0.02, 0.03, 0.04, 0.05, 0.06, 0.07, 0.08], cltv = 91\<rparr>,
         \<lparr>probs = [0.06, 0.12, 0.18, 0.24, 0.30, 0.36, 0.42, 0.48], cltv = 80\<rparr>,
         \<lparr>probs = [0.01, 0.02, 0.03, 0.04, 0.05, 0.06, 0.07, 0.08], cltv = 87\<rparr>,
         \<lparr>probs = [0.04, 0.08, 0.12, 0.16, 0.20, 0.24, 0.28, 0.32], cltv = 35\<rparr>,
         \<lparr>probs = [0.06, 0.12, 0.18, 0.24, 0.30, 0.36, 0.42, 0.48], cltv = 40\<rparr>,
         \<lparr>probs = [0.04, 0.08, 0.12, 0.16, 0.20, 0.24, 0.28, 0.32], cltv = 46\<rparr>,
         \<lparr>probs = [0.01, 0.02, 0.03, 0.04, 0.05, 0.06, 0.07, 0.08], cltv = 80\<rparr>]\<rparr>"

definition synthetic_solution :: "(var_key \<times> real option) list" where
  "synthetic_solution =
     [((0, 10), Some 0), ((0, 11), Some 1), ((1, 11), Some 1), ((2, 11), Some 1),
      ((3, 4), Some 1), ((4, 11), Some 1), ((5, 4), Some 1), ((6, 4), Some 1),
      ((7, 4), Some 0), ((7, 9), Some 1), ((8, 6), Some 1), ((9, 4), Some 1)]"

text \<open>The values of the decision variables in that solution.\<close>

definition synthetic_optimum :: "var_key \<Rightarrow> real" where
  "synthetic_optimum k =
     (if k \<in> set [(0, 11), (1, 11), (2, 11), (3, 4), (4, 11), (5, 4), (6, 4), (7, 9), (8, 6), (9, 4)]
      then 1 else 0)"

subsection \<open>Notions used to state the properties\<close>

text \<open>
  The position of the column labelled \<open>k\<close>, and the acceptance probability of coupon \<open>k\<close>
  for a customer: the entry of the customer's row in that column. They are used for labels
  \<open>k\<close> of the table only.
\<close>

definition column_index :: "int list \<Rightarrow> int \<Rightarrow> nat" where
  "column_index cols k = length (takeWhile (\<lambda>c. c \<noteq> k) cols)"

definition acceptance :: "dataframe \<Rightarrow> customer \<Rightarrow> int \<Rightarrow> real" where
  "acceptance df r k = probs r ! column_index (coupon_cols df) k"

text \<open>
  The expected net return of a policy that assigns the coupon \<open>assigned ! i\<close> to customer
  \<open>i\<close>: the sum over the customers of the acceptance probability of the assigned coupon
  times the CLTV minus the coupon's face value.
\<close>

definition expected_return :: "dataframe \<Rightarrow> int list \<Rightarrow> real" where
  "expected_return df assigned =
     (\<Sum>(r, k)\<leftarrow>zip (rows df) assigned. acceptance df r k * (cltv r - real_of_int k))"

subsection \<open>Closed forms used in the proofs\<close>

text \<open>
  The decision variable of a key, the keys of the program, the dictionaries after the loops
  of cell 7, the value and the variables of an expression, and the constraints, objective
  and problem that the cells 8 and 9 build from a well-formed table. The lemmas below show
  that the code computes them.
\<close>

definition decision_var :: "var_key \<Rightarrow> lp_variable" where
  "decision_var k = LpVariable LpInteger 0 1 k"

definition matrices_of :: "dataframe \<Rightarrow> (var_key \<Rightarrow> bool) \<Rightarrow> matrices \<Rightarrow> matrices" where
  "matrices_of df K m =
     \<lparr>x_dict = (\<lambda>k. if K k then Some (decision_var k) else x_dict m k),
      a_dict = (\<lambda>k. if K k then Some (snd k) else a_dict m k),
      c_dict = (\<lambda>k. if K k then Some (acceptance df (rows df ! fst k) (snd k)) else c_dict m k),
      d_dict = (\<lambda>k. if K k then Some (cltv (rows df ! fst k) - real_of_int (snd k)) else d_dict m k)\<rparr>"

definition model_keys :: "dataframe \<Rightarrow> var_key \<Rightarrow> bool" where
  "model_keys df k \<longleftrightarrow> fst k < length (rows df) \<and> snd k \<in> set (coupons df)"

definition model_matrices :: "dataframe \<Rightarrow> matrices" where
  "model_matrices df =
     matrices_of df (model_keys df)
       \<lparr>x_dict = Map.empty, a_dict = Map.empty, c_dict = Map.empty, d_dict = Map.empty\<rparr>"

definition terms_value :: "(var_key \<Rightarrow> real) \<Rightarrow> (lp_variable \<times> real) list \<Rightarrow> real" where
  "terms_value val ts = (\<Sum>(v, x)\<leftarrow>ts. x * val (var_name v))"

definition expr_vars :: "lp_affine \<Rightarrow> lp_variable set" where
  "expr_vars e = fst ` set (expr_terms e)"

definition model_pairs :: "dataframe \<Rightarrow> var_key list" where
  "model_pairs df = concat (map (\<lambda>i. map (Pair i) (coupons df)) (set_users df))"

definition model_user_constraint :: "dataframe \<Rightarrow> nat \<Rightarrow> lp_constraint" where
  "model_user_constraint df i =
     LpConstraint (lpSum (map (\<lambda>j. var_expr (decision_var (i, j))) (coupons df)))
       LpConstraintEQ (if coupons df = [] then 0 else 1) (ConstraintUser i)"

definition model_budget_constraint :: "dataframe \<Rightarrow> lp_constraint" where
  "model_budget_constraint df =
     LpConstraint
       (lpSum (map (\<lambda>k. mul_number (var_expr (decision_var k)) (real_of_int (snd k))) (model_pairs df)))
       LpConstraintLE (budget_b df) ConstraintB"

definition model_objective :: "dataframe \<Rightarrow> lp_affine" where
  "model_objective df =
     lpSum (map (\<lambda>k. mul_number
                        (mul_number (var_expr (decision_var k)) (acceptance df (rows df ! fst k) (snd k)))
                        (cltv (rows df ! fst k) - real_of_int (snd k)))
              (model_pairs df))"

definition model_problem :: "dataframe \<Rightarrow> lp_problem" where
  "model_problem df =
     \<lparr>prob_constraints =
        map (\<lambda>i. (ConstraintUser i, model_user_constraint df i)) (set_users df) @
        [(ConstraintB, model_budget_constraint df)],
      prob_sense = LpMaximize,
      prob_objective = Some (model_objective df)\<rparr>"

section \<open>Properties of \<open>create_customers\<close>\<close>

lemma np_arange_length: "length (np_arange a b) = nat (b - a)"
  by (simp add: np_arange_def)

lemma np_arange_nth: "i < nat (b - a) \<Longrightarrow> np_arange a b ! i = a + int i"
  by (simp add: np_arange_def)

lemma np_arange_set: "set (np_arange a b) = {k. a \<le> k \<and> k < b}"
  by (auto simp: np_arange_def)

lemma mults_length: "length (mults n) = nat (n - 1)"
  by (simp add: mults_def np_arange_length)

lemma mults_set: "set (mults n) = (\<lambda>k. real_of_int k / 100) ` {k. 1 \<le> k \<and> k < n}"
  by (simp add: mults_def np_arange_set)

lemma mults_pos: "m \<in> set (mults n) \<Longrightarrow> 0 < m"
  by (auto simp: mults_set)

lemma draws_length: "draws rnd s population k = Inr xs \<Longrightarrow> length xs = k"
  by (induction k arbitrary: s xs) (auto simp: Let_def split: if_splits sum.splits)

lemma draws_subset: "draws rnd s population k = Inr xs \<Longrightarrow> set xs \<subseteq> set population"
proof (induction k arbitrary: s xs)
  case 0
  then show ?case by simp
next
  case (Suc k)
  from Suc.prems obtain ys where
    idx: "nat \<lfloor>rnd s * real (length population)\<rfloor> < length population" and
    ys: "draws rnd (Suc s) population k = Inr ys" and
    xs: "xs = population ! nat \<lfloor>rnd s * real (length population)\<rfloor> # ys"
    by (auto simp: Let_def split: if_splits sum.splits)
  from Suc.IH [OF ys] idx show ?case by (simp add: xs)
qed

lemma draws_empty: "draws rnd s [] k = (if k = 0 then Inr [] else Inl IndexError)"
  by (cases k) simp_all

lemma draw_index_in_range:
  assumes "0 \<le> u" "u < 1" "xs \<noteq> []"
  shows "nat \<lfloor>u * real (length xs)\<rfloor> < length xs"
proof -
  have pos: "0 < real (length xs)" using assms(3) by simp
  have "u * real (length xs) < real (length xs)"
    using assms(2) pos by simp
  then have "\<lfloor>u * real (length xs)\<rfloor> < int (length xs)"
    by (simp add: floor_less_iff)
  moreover have "0 \<le> \<lfloor>u * real (length xs)\<rfloor>"
    using assms(1) by simp
  ultimately show ?thesis by linarith
qed

lemma draws_succeeds:
  assumes "unit_interval rnd" "population \<noteq> []"
  shows "\<exists>xs. draws rnd s population k = Inr xs"
proof (induction k arbitrary: s)
  case 0
  show ?case by simp
next
  case (Suc k)
  from Suc [of "Suc s"] obtain xs where xs: "draws rnd (Suc s) population k = Inr xs" by blast
  have "nat \<lfloor>rnd s * real (length population)\<rfloor> < length population"
    using assms by (intro draw_index_in_range) (auto simp: unit_interval_def)
  with xs show ?case by (simp add: Let_def)
qed

lemma choices_succeeds:
  assumes "unit_interval rnd" "population \<noteq> []"
  shows "\<exists>xs. choices rnd s population k = Inr (xs, s + nat k)"
  using draws_succeeds [OF assms, of s "nat k"] by (auto simp: choices_def)

lemma choices_result:
  "choices rnd s population k = Inr (xs, s') \<Longrightarrow>
     length xs = nat k \<and> set xs \<subseteq> set population \<and> s' = s + nat k"
  by (auto simp: choices_def split: sum.splits dest: draws_length draws_subset)

lemma choices_nonpositive: "k \<le> 0 \<Longrightarrow> choices rnd s population k = Inr ([], s)"
  by (simp add: choices_def)

lemma choices_empty_population: "0 < k \<Longrightarrow> choices rnd s [] k = Inl IndexError"
  by (simp add: choices_def draws_empty)

lemma cltvs_nonempty: "cltvs \<noteq> []"
proof -
  have "length cltvs = 90" by (simp add: cltvs_def np_arange_length)
  then show ?thesis by auto
qed

lemma mults_empty_iff: "mults n = [] \<longleftrightarrow> n < 2"
proof -
  have "mults n = [] \<longleftrightarrow> length (mults n) = 0" by simp
  also have "\<dots> \<longleftrightarrow> n < 2" by (simp add: mults_length) linarith
  finally show ?thesis .
qed

lemma mults_one: "mults 1 = []"
  by (simp add: mults_def np_arange_def)

lemma create_customers_one: "create_customers rnd 1 c = Inl IndexError"
  by (simp add: create_customers_def mults_one choices_empty_population)

lemma create_customers_nonpositive:
  "n \<le> 0 \<Longrightarrow> create_customers rnd n c = Inr \<lparr>coupon_cols = c, rows = []\<rparr>"
  by (simp add: create_customers_def choices_nonpositive)

lemma create_customers_succeeds:
  assumes "unit_interval rnd" "2 \<le> n" "distinct c"
  shows "\<exists>df. create_customers rnd n c = Inr df \<and> length (rows df) = nat n"
proof -
  have ne: "mults n \<noteq> []" using assms(2) by (simp add: mults_empty_iff)
  from choices_succeeds [OF assms(1) ne, of 0 n] obtain ms where
    ms: "choices rnd 0 (mults n) n = Inr (ms, 0 + nat n)" by blast
  from choices_succeeds [OF assms(1) cltvs_nonempty, of "0 + nat n" n] obtain cs where
    cs: "choices rnd (0 + nat n) cltvs n = Inr (cs, 0 + nat n + nat n)" by blast
  show ?thesis using ms cs assms(3) by (simp add: create_customers_def)
qed

lemma create_customers_repeated_labels:
  assumes "unit_interval rnd" "2 \<le> n" "\<not> distinct c"
  shows "create_customers rnd n c = Inl ValueError"
proof -
  have ne: "mults n \<noteq> []" using assms(2) by (simp add: mults_empty_iff)
  from choices_succeeds [OF assms(1) ne, of 0 n] obtain ms where
    ms: "choices rnd 0 (mults n) n = Inr (ms, 0 + nat n)" by blast
  from choices_succeeds [OF assms(1) cltvs_nonempty, of "0 + nat n" n] obtain cs where
    cs: "choices rnd (0 + nat n) cltvs n = Inr (cs, 0 + nat n + nat n)" by blast
  show ?thesis using ms cs assms(2,3) by (simp add: create_customers_def)
qed

lemma np_arange_one: "np_arange 1 (int n + 1) = map (\<lambda>j. int j + 1) [0..<n]"
proof (rule nth_equalityI)
  show "length (np_arange 1 (int n + 1)) = length (map (\<lambda>j. int j + 1) [0..<n])"
    by (simp add: np_arange_length)
next
  fix i assume "i < length (np_arange 1 (int n + 1))"
  then have i: "i < n" by (simp add: np_arange_length)
  then have "np_arange 1 (int n + 1) ! i = 1 + int i"
    by (intro np_arange_nth) simp
  with i show "np_arange 1 (int n + 1) ! i = map (\<lambda>j. int j + 1) [0..<n] ! i" by simp
qed

lemma customer_row_probs:
  "probs (customer_row ms cs c i) = map (\<lambda>j. real (j + 1) * ms ! i) [0..<length c]"
  unfolding customer_row_def np_arange_one by (simp add: o_def add.commute)

lemma create_customers_rows:
  assumes "create_customers rnd n c = Inr df"
  obtains ms cs where "length ms = nat n" "set ms \<subseteq> set (mults n)"
    "length cs = nat n" "set cs \<subseteq> set cltvs"
    "coupon_cols df = c" "rows df = map (customer_row ms cs c) [0..<nat n]"
proof -
  from assms obtain ms s where ms: "choices rnd 0 (mults n) n = Inr (ms, s)"
    by (auto simp: create_customers_def split: sum.splits)
  with assms obtain cs s' where cs: "choices rnd s cltvs n = Inr (cs, s')"
    by (auto simp: create_customers_def split: sum.splits)
  from assms ms cs have df: "df = \<lparr>coupon_cols = c, rows = map (customer_row ms cs c) [0..<nat n]\<rparr>"
    by (simp add: create_customers_def split: if_splits)
  from choices_result [OF ms] choices_result [OF cs] df show thesis
    by (intro that [of ms cs]) simp_all
qed

lemma create_customers_integer_cltvs:
  assumes "create_customers rnd n c = Inr df"
  shows "integer_cltvs df"
proof -
  from assms obtain ms cs where
    len: "length cs = nat n" and sub: "set cs \<subseteq> set cltvs" and
    rs: "rows df = map (customer_row ms cs c) [0..<nat n]"
    by (rule create_customers_rows)
  have "integer_cltv (customer_row ms cs c i)" if "i < nat n" for i
  proof -
    from that len sub have "cs ! i \<in> set cltvs" by (metis nth_mem subsetD)
    then have "30 \<le> cs ! i" "cs ! i < 120" by (simp_all add: cltvs_def np_arange_set)
    then have "\<bar>real_of_int (cs ! i)\<bar> \<le> 2 ^ 31" by simp
    then show ?thesis by (simp add: integer_cltv_def customer_row_def)
  qed
  then show ?thesis by (simp add: integer_cltvs_def rs list_all_iff)
qed

lemma scaled_strict:
  assumes "0 < (m::real)"
  shows "sorted_wrt (<) (map (\<lambda>j. real (j + 1) * m) [0..<k])"
  using assms by (simp add: sorted_wrt_iff_nth_less)

lemma unit_interval_half: "unit_interval (\<lambda>k. 1 / 2)"
  by (simp add: unit_interval_def)

subsection \<open>When \<open>create_customers\<close> fails\<close>

text \<open>
  C10, as amended. \<open>create_customers(n, c)\<close> fails for \<open>n = 1\<close>: the multiplier population
  \<open>np.arange(1, n, 1)/100\<close> is empty and the first draw of \<open>random.choices\<close> raises
  \<open>IndexError\<close>, before any row is produced. For \<open>n \<le> 0\<close> the population is empty too, but
  no draw is made and the result is the table without rows. The population consists of
  \<open>k/100\<close> for \<open>1 \<le> k < n\<close>: it depends on the number of customers \<open>n\<close> and not on the
  coupons. With distinct coupon labels and a random source in \<open>[0, 1)\<close>, \<open>n = 1\<close> is the
  only \<open>n\<close> at which the function fails.
\<close>

theorem create_customers_fails_at_one:
  "(mults 1 = [] \<and> choices rnd 0 (mults 1) 1 = Inl IndexError \<and>
    create_customers rnd 1 c = Inl IndexError) \<and>
   (n \<le> 0 \<longrightarrow> mults n = [] \<and> create_customers rnd n c = Inr \<lparr>coupon_cols = c, rows = []\<rparr>) \<and>
   (unit_interval rnd \<and> distinct c \<longrightarrow> ((\<exists>e. create_customers rnd n c = Inl e) \<longleftrightarrow> n = 1)) \<and>
   set (mults n) = (\<lambda>k. real_of_int k / 100) ` {k. 1 \<le> k \<and> k < n}"
proof -
  have iff: "(\<exists>e. create_customers rnd n c = Inl e) \<longleftrightarrow> n = 1"
    if rnd: "unit_interval rnd" and c: "distinct c"
  proof (cases "n \<le> 0")
    case True
    then show ?thesis by (simp add: create_customers_nonpositive)
  next
    case False
    show ?thesis
    proof (cases "n = 1")
      case True
      then show ?thesis by (simp add: create_customers_one)
    next
      case False
      with \<open>\<not> n \<le> 0\<close> have "2 \<le> n" by simp
      from create_customers_succeeds [OF rnd this c] False show ?thesis by auto
    qed
  qed
  have one: "mults 1 = [] \<and> choices rnd 0 (mults 1) 1 = Inl IndexError \<and>
      create_customers rnd 1 c = Inl IndexError"
    by (simp add: mults_one create_customers_one choices_empty_population)
  have nonpos: "n \<le> 0 \<longrightarrow> mults n = [] \<and> create_customers rnd n c = Inr \<lparr>coupon_cols = c, rows = []\<rparr>"
    by (simp add: create_customers_nonpositive mults_empty_iff)
  from iff one nonpos mults_set [of n] show ?thesis by blast
qed

theorem create_customers_fails_at_one_witness:
  "create_customers (\<lambda>k. 1 / 2) 1 [4, 5, 6] = Inl IndexError \<and>
   create_customers (\<lambda>k. 1 / 2) (- 2) [4, 5, 6] = Inr \<lparr>coupon_cols = [4, 5, 6], rows = []\<rparr> \<and>
   unit_interval (\<lambda>k. 1 / 2) \<and> distinct [4, 5, 6 :: int] \<and>
   (\<nexists>e. create_customers (\<lambda>k. 1 / 2) 3 [4, 5, 6] = Inl e)"
proof -
  have d: "distinct [4, 5, 6 :: int]" by simp
  from create_customers_fails_at_one [of "\<lambda>k. 1 / 2" "[4, 5, 6]" 1]
  have 1: "create_customers (\<lambda>k. 1 / 2) 1 [4, 5, 6] = Inl IndexError" by blast
  from create_customers_fails_at_one [of "\<lambda>k. 1 / 2" "[4, 5, 6]" "- 2"]
  have 2: "create_customers (\<lambda>k. 1 / 2) (- 2) [4, 5, 6] = Inr \<lparr>coupon_cols = [4, 5, 6], rows = []\<rparr>"
    by simp
  from create_customers_fails_at_one [of "\<lambda>k. 1 / 2" "[4, 5, 6]" 3] unit_interval_half d
  have 3: "\<nexists>e. create_customers (\<lambda>k. 1 / 2) 3 [4, 5, 6] = Inl e" by simp
  from 1 2 3 unit_interval_half d show ?thesis by blast
qed

text \<open>
  Failure for every \<open>n < 2\<close> does not hold: at \<open>n = 0\<close> the population
  is empty, and the empty table is returned.
\<close>

theorem create_customers_zero_counterexample:
  "(0::int) < 2 \<and> mults 0 = [] \<and>
   create_customers (\<lambda>k. 0) 0 [4, 5] = Inr \<lparr>coupon_cols = [4, 5], rows = []\<rparr>"
  by (simp add: create_customers_def choices_def mults_def np_arange_def)

subsection \<open>The generated acceptance values\<close>

text \<open>
  C6. The acceptance values that \<open>create_customers\<close> produces are meant to be probabilities,
  but the largest is \<open>len(c) * (n - 1)/100\<close>. With 14 customers and the notebook's coupons
  \<open>4, ..., 11\<close>, a random source that always returns \<open>0.99\<close> draws the multiplier \<open>0.13\<close>, and
  the value in column \<open>prob_coupon_11\<close> is \<open>8 * 0.13 = 1.04\<close>.
\<close>

theorem create_customers_value_above_one:
  "create_customers (\<lambda>k. 99 / 100) 14 [4, 5, 6, 7, 8, 9, 10, 11] =
     Inr \<lparr>coupon_cols = [4, 5, 6, 7, 8, 9, 10, 11],
          rows = replicate 14
            \<lparr>probs = [13 / 100, 26 / 100, 39 / 100, 52 / 100, 65 / 100, 78 / 100, 91 / 100,
                      104 / 100],
             cltv = 119\<rparr>\<rparr> \<and>
   (1::real) < 104 / 100"
  by code_simp

subsection \<open>Acceptance values increase with the coupon\<close>

text \<open>
  C8. For every customer that \<open>create_customers(n, c)\<close> generates (the coupon labels of \<open>c\<close>
  being distinct), there is a multiplier \<open>m\<close> from \<open>np.arange(1, n, 1)/100\<close>, which is
  positive, such that the value at position \<open>j\<close> of the candidate array is \<open>(j + 1) * m\<close>;
  the values are non-decreasing in the position, and strictly increasing.
\<close>

theorem create_customers_probs_increasing:
  assumes "distinct c" "create_customers rnd n c = Inr df" "i < length (rows df)"
  shows "\<exists>m. m \<in> set (mults n) \<and> 0 < m \<and>
           coupon_cols df = c \<and>
           length (probs (rows df ! i)) = length c \<and>
           (\<forall>j<length c. probs (rows df ! i) ! j = real (j + 1) * m) \<and>
           sorted (probs (rows df ! i)) \<and>
           sorted_wrt (<) (probs (rows df ! i))"
proof -
  from assms(2) obtain ms cs where
    len: "length ms = nat n" and sub: "set ms \<subseteq> set (mults n)" and
    cols: "coupon_cols df = c" and
    rs: "rows df = map (customer_row ms cs c) [0..<nat n]"
    by (rule create_customers_rows)
  from assms(3) rs have i: "i < nat n" by simp
  define m where "m = ms ! i"
  have mem: "m \<in> set (mults n)" using i len sub by (auto simp: m_def)
  then have pos: "0 < m" by (rule mults_pos)
  have pr: "probs (rows df ! i) = map (\<lambda>j. real (j + 1) * m) [0..<length c]"
    using i by (simp add: rs customer_row_probs m_def)
  have strict: "sorted_wrt (<) (probs (rows df ! i))"
    unfolding pr using pos by (rule scaled_strict)
  then have "sorted (probs (rows df ! i))"
    by (rule strict_sorted_imp_sorted)
  with mem pos pr strict cols show ?thesis by auto
qed

theorem create_customers_probs_increasing_witness:
  "distinct [4, 5, 6 :: int] \<and>
   create_customers (\<lambda>k. 1 / 2) 3 [4, 5, 6] =
     Inr \<lparr>coupon_cols = [4, 5, 6],
          rows = replicate 3 \<lparr>probs = [1 / 50, 2 / 50, 3 / 50], cltv = 75\<rparr>\<rparr> \<and>
   (\<exists>m. m \<in> set (mults 3) \<and> 0 < m \<and> [1 / 50, 2 / 50, 3 / 50] = [1 * m, 2 * m, 3 * m] \<and>
        sorted_wrt (<) [1 / 50, 2 / 50, 3 / 50 :: real])"
proof -
  let ?df = "\<lparr>coupon_cols = [4, 5, 6],
          rows = replicate 3 \<lparr>probs = [1 / 50, 2 / 50, 3 / 50], cltv = 75\<rparr>\<rparr>"
  have d: "distinct [4, 5, 6 :: int]" by simp
  have e: "create_customers (\<lambda>k. 1 / 2) 3 [4, 5, 6] = Inr ?df" by code_simp
  have i: "0 < length (rows ?df)" by simp
  from create_customers_probs_increasing [OF d e i] obtain m where
    m: "m \<in> set (mults 3)" "0 < m"
      "\<forall>j<length [4, 5, 6 :: int]. probs (rows ?df ! 0) ! j = real (j + 1) * m"
      "sorted_wrt (<) (probs (rows ?df ! 0))"
    by blast
  have "m = 1 / 50" using m(3) [rule_format, of 0] by simp
  then have "[1 / 50, 2 / 50, 3 / 50] = [1 * m, 2 * m, 3 * m]" by simp
  with m d e show ?thesis by auto
qed

section \<open>The BAU baseline and the returns of the two policies\<close>

lemma rhe_cases:
  "round_half_even v = \<lfloor>v\<rfloor> \<or> round_half_even v = \<lfloor>v\<rfloor> + 1"
  by (simp add: round_half_even_def Let_def)

lemma rhe_dist: "\<bar>real_of_int (round_half_even v) - v\<bar> \<le> 1 / 2"
  by (simp add: round_half_even_def Let_def)

lemma rhe_nearest: "\<bar>real_of_int (round_half_even v) - v\<bar> \<le> \<bar>real_of_int z - v\<bar>"
proof (cases "z \<le> \<lfloor>v\<rfloor>")
  case True
  then have "real_of_int z \<le> real_of_int \<lfloor>v\<rfloor>" by simp
  then show ?thesis
    by (simp add: round_half_even_def Let_def) linarith
next
  case False
  then have "\<lfloor>v\<rfloor> + 1 \<le> z" by simp
  then have "real_of_int \<lfloor>v\<rfloor> + 1 \<le> real_of_int z" by linarith
  then show ?thesis
    by (simp add: round_half_even_def Let_def) linarith
qed

lemma rhe_tie: "\<bar>real_of_int (round_half_even v) - v\<bar> = 1 / 2 \<Longrightarrow> even (round_half_even v)"
  by (auto simp: round_half_even_def Let_def split: if_splits)

lemma rhe_bau_range:
  "round_half_even (v * (1 / 10)) \<in> {4..11} \<longleftrightarrow> 35 \<le> v \<and> v < 115"
proof -
  define x where "x = v * (1 / 10)"
  define f where "f = \<lfloor>x\<rfloor>"
  have fl: "real_of_int f \<le> x" and fu: "x < real_of_int f + 1"
    by (simp_all add: f_def)
  have odd3: "\<not> even (3::int)" and odd11: "\<not> even (11::int)" by simp_all
  show ?thesis
  proof
    assume a: "round_half_even (v * (1 / 10)) \<in> {4..11}"
    show "35 \<le> v \<and> v < 115"
    proof (rule ccontr)
      assume "\<not> (35 \<le> v \<and> v < 115)"
      then consider "v < 35" | "115 \<le> v" by linarith
      then show False
      proof cases
        case 1
        then have "x < 7 / 2" by (simp add: x_def)
        with fl have "real_of_int f < 7 / 2" by linarith
        then have f3: "f \<le> 3" by linarith
        show False
        proof (cases "f = 3")
          case True
          with \<open>x < 7 / 2\<close> have "x - real_of_int f < 1 / 2" by simp
          then have "round_half_even x = 3"
            using True by (simp add: round_half_even_def Let_def f_def [symmetric])
          with a show False by (simp add: x_def)
        next
          case False
          with f3 have "f + 1 \<le> 3" by simp
          moreover have "round_half_even x \<le> f + 1"
            using rhe_cases [of x] by (auto simp: f_def)
          ultimately show False using a by (simp add: x_def)
        qed
      next
        case 2
        then have x: "23 / 2 \<le> x" by (simp add: x_def)
        with fu have "21 / 2 < real_of_int f" by linarith
        then have f11: "11 \<le> f" by linarith
        show False
        proof (cases "f = 11")
          case True
          with x have "1 / 2 \<le> x - real_of_int f" by simp
          then have "round_half_even x = 12"
            using True odd11 by (simp add: round_half_even_def Let_def f_def [symmetric])
          with a show False by (simp add: x_def)
        next
          case False
          with f11 have "12 \<le> f" by simp
          moreover have "f \<le> round_half_even x"
            using rhe_cases [of x] by (auto simp: f_def)
          ultimately show False using a by (simp add: x_def)
        qed
      qed
    qed
  next
    assume a: "35 \<le> v \<and> v < 115"
    then have xl: "7 / 2 \<le> x" and xu: "x < 23 / 2" by (simp_all add: x_def)
    from xl fu have "5 / 2 < real_of_int f" by linarith
    then have f3: "3 \<le> f" by linarith
    from xu fl have "real_of_int f < 23 / 2" by linarith
    then have f11: "f \<le> 11" by linarith
    have "round_half_even x \<in> {4..11}"
    proof (cases "f = 3")
      case True
      with xl have "1 / 2 \<le> x - real_of_int f" by simp
      then have "round_half_even x = 4"
        using True odd3 by (simp add: round_half_even_def Let_def f_def [symmetric])
      then show ?thesis by simp
    next
      case n3: False
      show ?thesis
      proof (cases "f = 11")
        case True
        with xu have "x - real_of_int f < 1 / 2" by simp
        then have "round_half_even x = 11"
          using True by (simp add: round_half_even_def Let_def f_def [symmetric])
        then show ?thesis by simp
      next
        case False
        with n3 f3 f11 have "4 \<le> f" "f + 1 \<le> 11" by simp_all
        then show ?thesis using rhe_cases [of x] by (auto simp: f_def)
      qed
    qed
    then show "round_half_even (v * (1 / 10)) \<in> {4..11}" by (simp add: x_def)
  qed
qed


lemma map_of_zip_column:
  "length ps = length cols \<Longrightarrow> k \<in> set cols \<Longrightarrow>
     map_of (zip cols ps) k = Some (ps ! column_index cols k)"
proof (induction cols ps rule: list_induct2')
  case (4 c cols p ps)
  then show ?case by (auto simp: column_index_def)
qed simp_all

lemma map_of_zip_absent: "k \<notin> set cols \<Longrightarrow> map_of (zip cols ps) k = None"
  by (auto simp: map_of_eq_None_iff dest: set_zip_leftD)

lemma row_getitem_wf:
  assumes "length (probs r) = length (coupon_cols df)"
  shows "row_getitem (coupon_cols df) r k =
     (if k \<in> set (coupons df) then Inr (acceptance df r k) else Inl KeyError)"
  using assms
  by (simp add: row_getitem_def coupons_def acceptance_def map_of_zip_column map_of_zip_absent)

lemma wf_df_row: "wf_df df \<Longrightarrow> r \<in> set (rows df) \<Longrightarrow> length (probs r) = length (coupon_cols df)"
  by (simp add: wf_df_def list_all_iff)

lemma comprehension_if:
  assumes "\<And>y. y \<in> set ys \<Longrightarrow> f y = (if P y then Inr (g y) else Inl e)"
  shows "comprehension f ys = (if list_all P ys then Inr (map g ys) else Inl e)"
  using assms by (induction ys) auto

lemma comprehension_Inr_all:
  "comprehension f ys = Inr vs \<Longrightarrow> y \<in> set ys \<Longrightarrow> \<exists>v. f y = Inr v"
  by (induction ys arbitrary: vs) (auto split: sum.splits)

lemma list_all_zip_snd:
  "length xs = length ys \<Longrightarrow> list_all (\<lambda>(x, y). P y) (zip xs ys) \<longleftrightarrow> set ys \<subseteq> {y. P y}"
  by (induction xs ys rule: list_induct2) auto

lemma coupons_bau_length: "length (coupons_bau df) = length (rows df)"
  by (simp add: coupons_bau_def)

lemma prob_coupon_bau_empty: "rows df = [] \<Longrightarrow> prob_coupon_bau df = Inl ValueError"
  by (simp add: prob_coupon_bau_def)

lemma prob_coupon_opt_empty: "rows df = [] \<Longrightarrow> prob_coupon_opt df col = Inl ValueError"
  by (simp add: prob_coupon_opt_def)

lemma prob_coupon_bau_wf:
  assumes "wf_df df" "rows df \<noteq> []"
  shows "prob_coupon_bau df =
     (if set (coupons_bau df) \<subseteq> set (coupons df)
      then Inr (map (\<lambda>(r, k). acceptance df r k) (zip (rows df) (coupons_bau df)))
      else Inl KeyError)"
proof -
  have "comprehension (\<lambda>(r, k). row_getitem (coupon_cols df) r k) (zip (rows df) (coupons_bau df)) =
      (if list_all (\<lambda>(r, k). k \<in> set (coupons df)) (zip (rows df) (coupons_bau df))
       then Inr (map (\<lambda>(r, k). acceptance df r k) (zip (rows df) (coupons_bau df)))
       else Inl KeyError)"
  proof (rule comprehension_if)
    fix y assume "y \<in> set (zip (rows df) (coupons_bau df))"
    then have "fst y \<in> set (rows df)" by (metis set_zip_leftD prod.collapse)
    from row_getitem_wf [OF wf_df_row [OF assms(1) this]]
    show "(case y of (r, k) \<Rightarrow> row_getitem (coupon_cols df) r k) =
        (if (case y of (r, k) \<Rightarrow> k \<in> set (coupons df))
         then Inr (case y of (r, k) \<Rightarrow> acceptance df r k) else Inl KeyError)"
      by (cases y) simp
  qed
  moreover have "list_all (\<lambda>(r, k). k \<in> set (coupons df)) (zip (rows df) (coupons_bau df)) \<longleftrightarrow>
      set (coupons_bau df) \<subseteq> set (coupons df)"
    using list_all_zip_snd [of "rows df" "coupons_bau df" "\<lambda>k. k \<in> set (coupons df)"]
    by (auto simp: coupons_bau_length)
  ultimately show ?thesis using assms(2) by (simp add: prob_coupon_bau_def)
qed

lemma ROI_BAU_wf:
  assumes "wf_df df" "rows df \<noteq> []"
  shows "ROI_BAU df =
     (if set (coupons_bau df) \<subseteq> set (coupons df)
      then Inr (expected_return df (coupons_bau df)) else Inl KeyError)"
proof (cases "set (coupons_bau df) \<subseteq> set (coupons df)")
  case True
  have "roi_bau df = Inr (map (\<lambda>(r, k). acceptance df r k * (cltv r - real_of_int k))
      (zip (rows df) (coupons_bau df)))"
    using True
    by (simp add: roi_bau_def prob_coupon_bau_wf [OF assms] zip_map1 zip_same_conv_map o_def
        case_prod_unfold)
  then show ?thesis
    using True by (simp add: ROI_BAU_def expected_return_def)
next
  case False
  then show ?thesis
    by (simp add: ROI_BAU_def roi_bau_def prob_coupon_bau_wf [OF assms])
qed

lemma prob_coupon_opt_wf:
  assumes "wf_df df" "length assigned = length (rows df)" "rows df \<noteq> []"
  shows "prob_coupon_opt df (map Some assigned) =
     (if set assigned \<subseteq> set (coupons df)
      then Inr (map (\<lambda>(r, k). acceptance df r k) (zip (rows df) assigned))
      else Inl KeyError)"
proof -
  let ?f = "\<lambda>(r, k). case k of None \<Rightarrow> Inl ValueError | Some j \<Rightarrow> row_getitem (coupon_cols df) r j"
  let ?zs = "zip (rows df) (map Some assigned)"
  have "comprehension ?f ?zs =
      (if list_all (\<lambda>(r, k). the k \<in> set (coupons df)) ?zs
       then Inr (map (\<lambda>(r, k). acceptance df r (the k)) ?zs)
       else Inl KeyError)"
  proof (rule comprehension_if)
    fix y assume y: "y \<in> set ?zs"
    then have "fst y \<in> set (rows df)" by (metis set_zip_leftD prod.collapse)
    moreover from y have "snd y \<in> set (map Some assigned)" by (metis set_zip_rightD prod.collapse)
    then obtain j where "snd y = Some j" by auto
    ultimately show "?f y =
        (if (case y of (r, k) \<Rightarrow> the k \<in> set (coupons df))
         then Inr (case y of (r, k) \<Rightarrow> acceptance df r (the k)) else Inl KeyError)"
      using row_getitem_wf [OF wf_df_row [OF assms(1)], of "fst y" j] by (cases y) simp
  qed
  moreover have "list_all (\<lambda>(r, k). the k \<in> set (coupons df)) ?zs \<longleftrightarrow>
      set assigned \<subseteq> set (coupons df)"
    using list_all_zip_snd [of "rows df" "map Some assigned" "\<lambda>k. the k \<in> set (coupons df)"] assms(2)
    by auto
  moreover have "map (\<lambda>(r, k). acceptance df r (the k)) ?zs =
      map (\<lambda>(r, k). acceptance df r k) (zip (rows df) assigned)"
    by (simp add: zip_map2 case_prod_unfold o_def)
  ultimately show ?thesis using assms(3) by (simp add: prob_coupon_opt_def)
qed

lemma ROI_OPT_wf:
  assumes "wf_df df" "length assigned = length (rows df)" "rows df \<noteq> []"
  shows "ROI_OPT df (map Some assigned) =
     (if set assigned \<subseteq> set (coupons df)
      then Inr (expected_return df assigned) else Inl KeyError)"
proof (cases "set assigned \<subseteq> set (coupons df)")
  case True
  have "roi_opt df (map Some assigned) =
      Inr (map (\<lambda>(r, k). Some (acceptance df r k * (cltv r - real_of_int k)))
        (zip (rows df) assigned))"
    using True
    by (simp add: roi_opt_def prob_coupon_opt_wf [OF assms] zip_map1 zip_map2
        zip_same_conv_map o_def case_prod_unfold)
  then show ?thesis
    using True by (simp add: ROI_OPT_def expected_return_def o_def case_prod_unfold)
next
  case False
  then show ?thesis
    by (simp add: ROI_OPT_def roi_opt_def prob_coupon_opt_wf [OF assms])
qed

lemma prob_coupon_opt_no_nan:
  assumes "prob_coupon_opt df col = Inr ps" "length col = length (rows df)"
  shows "\<exists>assigned. col = map Some assigned"
proof -
  have "k \<noteq> None" if "k \<in> set col" for k
  proof -
    from that assms(2) obtain r where "(r, k) \<in> set (zip (rows df) col)"
      by (metis in_set_impl_in_set_zip2)
    moreover from assms(1) have "comprehension
        (\<lambda>(r, k). case k of
                     None \<Rightarrow> Inl ValueError
                   | Some j \<Rightarrow> row_getitem (coupon_cols df) r j)
        (zip (rows df) col) = Inr ps"
      by (simp add: prob_coupon_opt_def split: if_splits)
    ultimately show ?thesis
      by (auto dest!: comprehension_Inr_all split: option.splits)
  qed
  then have "col = map Some (map the col)"
    by (simp add: map_idI)
  then show ?thesis ..
qed


lemma rhe_integer: "v \<in> \<int> \<Longrightarrow> real_of_int (round_half_even v) = v"
  by (auto simp: round_half_even_def Let_def elim!: Ints_cases)

lemma coupon_opt_fold_length:
  "length (fold (\<lambda>((i, j), varValue) col. if varValue = Some 1 then col[i := Some j] else col) sol col) = length col"
  by (induction sol arbitrary: col) (auto split: prod.splits)

lemma coupon_opt_length: "length (coupon_opt sol n) = n"
  by (simp add: coupon_opt_def coupon_opt_fold_length)

lemma wf_synthetic_users: "wf_df synthetic_users"
  by (simp add: wf_df_def synthetic_users_def)

lemma synthetic_coupons_bau: "coupons_bau synthetic_users = [10, 8, 11, 9, 8, 9, 4, 4, 5, 8]"
  by (simp add: coupons_bau_def synthetic_users_def round_half_even_def Let_def)

lemma synthetic_coupons: "coupons synthetic_users = [4, 5, 6, 7, 8, 9, 10, 11]"
  by (simp add: coupons_def synthetic_users_def)

lemma synthetic_coupon_opt:
  "coupon_opt synthetic_solution 10 = map Some [11, 11, 11, 4, 11, 4, 4, 9, 6, 4]"
  by (simp add: coupon_opt_def synthetic_solution_def eval_nat_numeral)

lemma synthetic_length: "length (rows synthetic_users) = 10"
  by (simp add: synthetic_users_def)

lemma integer_cltvs_row: "integer_cltvs df \<Longrightarrow> r \<in> set (rows df) \<Longrightarrow> integer_cltv r"
  by (simp add: integer_cltvs_def list_all_iff)

lemma integer_cltvs_synthetic_users: "integer_cltvs synthetic_users"
  by (simp add: integer_cltvs_def integer_cltv_def synthetic_users_def)

lemma synthetic_rows_nonempty: "rows synthetic_users \<noteq> []"
  by (simp add: synthetic_users_def)

lemma program_solution_synthetic: "program_solution synthetic_users synthetic_solution"
  by (simp add: program_solution_def synthetic_solution_def synthetic_users_def)

lemma rhe_machine_integer:
  assumes "\<bar>v\<bar> \<le> 2 ^ 31"
  shows "\<bar>round_half_even (v * (1 / 10))\<bar> < 2 ^ 31"
proof -
  have "\<bar>real_of_int (round_half_even (v * (1 / 10)))\<bar> \<le> \<bar>v * (1 / 10)\<bar> + 1 / 2"
    using rhe_dist [of "v * (1 / 10)"] by linarith
  also have "\<dots> < 2 ^ 31" using assms by simp
  finally have "real_of_int \<bar>round_half_even (v * (1 / 10))\<bar> < real_of_int (2 ^ 31)" by simp
  then show ?thesis by (simp only: of_int_less_iff)
qed

subsection \<open>The BAU coupon\<close>

text \<open>
  C4, as amended. Under the BAU baseline the assigned coupon of every customer with an
  integer-valued CLTV (of absolute value at most \<open>2\<^sup>3\<^sup>1\<close>) is 10% of the customer's CLTV
  rounded to an integer: it is within one half of 10% of the CLTV, no integer is nearer,
  a tie goes to the even integer, and the coupon equals 10% of the CLTV when that is an
  integer. The coupon fits a machine integer.
\<close>

theorem coupons_bau_nearest_integer:
  assumes "i < length (rows df)" "integer_cltv (rows df ! i)"
  shows "length (coupons_bau df) = length (rows df) \<and>
         \<bar>coupons_bau df ! i\<bar> < 2 ^ 31 \<and>
         \<bar>real_of_int (coupons_bau df ! i) - cltv (rows df ! i) * (1 / 10)\<bar> \<le> 1 / 2 \<and>
         (\<forall>z. \<bar>real_of_int (coupons_bau df ! i) - cltv (rows df ! i) * (1 / 10)\<bar>
               \<le> \<bar>real_of_int z - cltv (rows df ! i) * (1 / 10)\<bar>) \<and>
         (\<bar>real_of_int (coupons_bau df ! i) - cltv (rows df ! i) * (1 / 10)\<bar> = 1 / 2
            \<longrightarrow> even (coupons_bau df ! i)) \<and>
         (cltv (rows df ! i) * (1 / 10) \<in> \<int>
            \<longrightarrow> real_of_int (coupons_bau df ! i) = cltv (rows df ! i) * (1 / 10))"
proof -
  have k: "coupons_bau df ! i = round_half_even (cltv (rows df ! i) * (1 / 10))"
    using assms(1) by (simp add: coupons_bau_def)
  have "\<bar>cltv (rows df ! i)\<bar> \<le> 2 ^ 31"
    using assms(2) by (simp add: integer_cltv_def)
  then have m: "\<bar>round_half_even (cltv (rows df ! i) * (1 / 10))\<bar> < 2 ^ 31"
    by (rule rhe_machine_integer)
  show ?thesis
    unfolding k
    using rhe_dist [of "cltv (rows df ! i) * (1 / 10)"] m
      rhe_nearest [of "cltv (rows df ! i) * (1 / 10)"]
      rhe_tie [of "cltv (rows df ! i) * (1 / 10)"]
      rhe_integer [of "cltv (rows df ! i) * (1 / 10)"]
    by (simp add: coupons_bau_length)
qed

theorem coupons_bau_nearest_integer_witness:
  "0 < length (rows synthetic_users) \<and>
   integer_cltv (rows synthetic_users ! 0) \<and>
   cltv (rows synthetic_users ! 0) = 98 \<and>
   coupons_bau synthetic_users ! 0 = 10 \<and>
   \<bar>real_of_int (coupons_bau synthetic_users ! 0) - 98 * (1 / 10)\<bar> \<le> 1 / 2"
proof -
  have i: "0 < length (rows synthetic_users)" by (simp add: synthetic_users_def)
  have c: "cltv (rows synthetic_users ! 0) = 98" by (simp add: synthetic_users_def)
  have d: "integer_cltv (rows synthetic_users ! 0)"
    by (simp add: integer_cltv_def synthetic_users_def)
  from coupons_bau_nearest_integer [OF i d] c i d show ?thesis
    by (simp add: synthetic_coupons_bau)
qed

text \<open>
  Equality with 10% of the CLTV fails for the first customer of the notebook: the CLTV is 98, 10% of
  it is 9.8, and the assigned coupon is 10.
\<close>

theorem coupons_bau_not_tenth_counterexample:
  "cltv (rows synthetic_users ! 0) = 98 \<and>
   coupons_bau synthetic_users ! 0 = 10 \<and>
   real_of_int (coupons_bau synthetic_users ! 0) \<noteq> 0.1 * cltv (rows synthetic_users ! 0)"
  by (simp add: synthetic_coupons_bau) (simp add: synthetic_users_def)

subsection \<open>The BAU probability lookup\<close>

text \<open>
  C9. On a well-formed table with at least one customer and integer-valued CLTV (of
  absolute value at most \<open>2\<^sup>3\<^sup>1\<close>), the BAU lookup of the column \<open>prob_coupon_bau\<close> succeeds if and
  only if every rounded coupon \<open>round(0.1 * cltv)\<close> is the value of a \<open>prob_coupon_{j}\<close>
  column, and it raises \<open>KeyError\<close> otherwise; row by row, the lookup gives the entry of that
  column or \<open>KeyError\<close>. With the coupons \<open>4, ..., 11\<close> the lookup of a row raises \<open>KeyError\<close>
  exactly when the CLTV is below 35 or at least 115, and one such customer makes the whole
  lookup raise.
\<close>

theorem prob_coupon_bau_keyerror:
  assumes "wf_df df" "rows df \<noteq> []" "integer_cltvs df"
  shows "((\<exists>ps. prob_coupon_bau df = Inr ps) \<longleftrightarrow> set (coupons_bau df) \<subseteq> set (coupons df)) \<and>
         (\<not> set (coupons_bau df) \<subseteq> set (coupons df) \<longrightarrow> prob_coupon_bau df = Inl KeyError) \<and>
         (\<forall>i<length (rows df).
            row_getitem (coupon_cols df) (rows df ! i) (coupons_bau df ! i) =
              (if round_half_even (cltv (rows df ! i) * (1 / 10)) \<in> set (coupons df)
               then Inr (acceptance df (rows df ! i) (coupons_bau df ! i))
               else Inl KeyError)) \<and>
         (coupons df = [4, 5, 6, 7, 8, 9, 10, 11] \<longrightarrow>
            (\<forall>i<length (rows df).
               row_getitem (coupon_cols df) (rows df ! i) (coupons_bau df ! i) = Inl KeyError
                 \<longleftrightarrow> cltv (rows df ! i) < 35 \<or> 115 \<le> cltv (rows df ! i)) \<and>
            ((\<exists>r\<in>set (rows df). cltv r < 35 \<or> 115 \<le> cltv r) \<longrightarrow>
               prob_coupon_bau df = Inl KeyError))"
proof -
  have a: "(\<exists>ps. prob_coupon_bau df = Inr ps) \<longleftrightarrow> set (coupons_bau df) \<subseteq> set (coupons df)"
    by (simp add: prob_coupon_bau_wf [OF assms(1,2)])
  have b: "\<not> set (coupons_bau df) \<subseteq> set (coupons df) \<longrightarrow> prob_coupon_bau df = Inl KeyError"
    by (simp add: prob_coupon_bau_wf [OF assms(1,2)])
  have c: "row_getitem (coupon_cols df) (rows df ! i) (coupons_bau df ! i) =
      (if round_half_even (cltv (rows df ! i) * (1 / 10)) \<in> set (coupons df)
       then Inr (acceptance df (rows df ! i) (coupons_bau df ! i))
       else Inl KeyError)" if "i < length (rows df)" for i
  proof -
    from that have "rows df ! i \<in> set (rows df)" by simp
    from row_getitem_wf [OF wf_df_row [OF assms(1) this]] that show ?thesis
      by (simp add: coupons_bau_def)
  qed
  have d: "row_getitem (coupon_cols df) (rows df ! i) (coupons_bau df ! i) = Inl KeyError
      \<longleftrightarrow> cltv (rows df ! i) < 35 \<or> 115 \<le> cltv (rows df ! i)"
    if "i < length (rows df)" and cs: "coupons df = [4, 5, 6, 7, 8, 9, 10, 11]" for i
  proof -
    have "set (coupons df) = {4..11}" unfolding cs by auto
    with c [OF that(1)] rhe_bau_range [of "cltv (rows df ! i)"] show ?thesis
      by (auto split: if_splits)
  qed
  have e: "prob_coupon_bau df = Inl KeyError"
    if cs: "coupons df = [4, 5, 6, 7, 8, 9, 10, 11]"
      and r: "r \<in> set (rows df)" "cltv r < 35 \<or> 115 \<le> cltv r" for r
  proof -
    have s: "set (coupons df) = {4..11}" unfolding cs by auto
    from r rhe_bau_range [of "cltv r"] have "round_half_even (cltv r * (1 / 10)) \<notin> set (coupons df)"
      unfolding s by auto
    moreover from r(1) have "round_half_even (cltv r * (1 / 10)) \<in> set (coupons_bau df)"
      by (simp add: coupons_bau_def)
    ultimately have "\<not> set (coupons_bau df) \<subseteq> set (coupons df)" by blast
    with b show ?thesis by simp
  qed
  from a b c d e show ?thesis by blast
qed

theorem prob_coupon_bau_keyerror_witness:
  "wf_df \<lparr>coupon_cols = [4, 5, 6, 7, 8, 9, 10, 11],
      rows = [\<lparr>probs = [0.01, 0.02, 0.03, 0.04, 0.05, 0.06, 0.07, 0.08], cltv = 34\<rparr>]\<rparr> \<and>
   integer_cltvs \<lparr>coupon_cols = [4, 5, 6, 7, 8, 9, 10, 11],
      rows = [\<lparr>probs = [0.01, 0.02, 0.03, 0.04, 0.05, 0.06, 0.07, 0.08], cltv = 34\<rparr>]\<rparr> \<and>
   prob_coupon_bau \<lparr>coupon_cols = [4, 5, 6, 7, 8, 9, 10, 11],
      rows = [\<lparr>probs = [0.01, 0.02, 0.03, 0.04, 0.05, 0.06, 0.07, 0.08], cltv = 34\<rparr>]\<rparr>
     = Inl KeyError \<and>
   wf_df synthetic_users \<and> rows synthetic_users \<noteq> [] \<and> integer_cltvs synthetic_users \<and>
   (\<exists>ps. prob_coupon_bau synthetic_users = Inr ps)"
proof -
  let ?df = "\<lparr>coupon_cols = [4, 5, 6, 7, 8, 9, 10, 11],
      rows = [\<lparr>probs = [0.01, 0.02, 0.03, 0.04, 0.05, 0.06, 0.07, 0.08], cltv = 34\<rparr>]\<rparr>"
  have wf: "wf_df ?df" by (simp add: wf_df_def)
  have ne: "rows ?df \<noteq> []" by simp
  have ic: "integer_cltvs ?df" by (simp add: integer_cltvs_def integer_cltv_def)
  have cs: "coupons ?df = [4, 5, 6, 7, 8, 9, 10, 11]" by (simp add: coupons_def)
  have r: "\<exists>r\<in>set (rows ?df). cltv r < 35 \<or> 115 \<le> cltv r" by simp
  from prob_coupon_bau_keyerror [OF wf ne ic] cs r have 1: "prob_coupon_bau ?df = Inl KeyError"
    by blast
  have "set (coupons_bau synthetic_users) \<subseteq> set (coupons synthetic_users)"
    by (simp add: synthetic_coupons_bau synthetic_coupons)
  with prob_coupon_bau_keyerror
    [OF wf_synthetic_users synthetic_rows_nonempty integer_cltvs_synthetic_users]
  have 2: "\<exists>ps. prob_coupon_bau synthetic_users = Inr ps" by blast
  from wf ic 1 wf_synthetic_users synthetic_rows_nonempty integer_cltvs_synthetic_users 2
  show ?thesis by blast
qed

subsection \<open>The reported returns\<close>

text \<open>
  C5. On a well-formed table with at least one customer and integer-valued CLTV (of
  absolute value at most \<open>2\<^sup>3\<^sup>1\<close>), for both policies the reported ROI is the sum over all
  customers of the acceptance probability of the assigned coupon times the CLTV minus the
  coupon's face value. For BAU the assigned coupons are \<open>coupons_bau\<close> (and the lookup must
  succeed); for the optimised policy they are the coupons that the solver's result, a list
  of variables of the program, puts in the column \<open>coupon_opt\<close>.
\<close>

theorem roi_is_expected_return:
  assumes "wf_df df" "rows df \<noteq> []" "integer_cltvs df" "program_solution df sol"
  shows "ROI_BAU df =
           (if set (coupons_bau df) \<subseteq> set (coupons df)
            then Inr (expected_return df (coupons_bau df)) else Inl KeyError) \<and>
         (\<forall>R. ROI_OPT df (coupon_opt sol (length (rows df))) = Inr R \<longrightarrow>
            (\<exists>assigned. coupon_opt sol (length (rows df)) = map Some assigned \<and>
               set assigned \<subseteq> set (coupons df) \<and> R = expected_return df assigned)) \<and>
         (\<forall>assigned. coupon_opt sol (length (rows df)) = map Some assigned \<and>
               set assigned \<subseteq> set (coupons df) \<longrightarrow>
            ROI_OPT df (coupon_opt sol (length (rows df))) = Inr (expected_return df assigned))"
proof -
  let ?col = "coupon_opt sol (length (rows df))"
  have len: "length ?col = length (rows df)" by (rule coupon_opt_length)
  have opt1: "\<exists>assigned. ?col = map Some assigned \<and>
      set assigned \<subseteq> set (coupons df) \<and> R = expected_return df assigned"
    if R: "ROI_OPT df ?col = Inr R" for R
  proof -
    from R obtain ps where "prob_coupon_opt df ?col = Inr ps"
      by (auto simp: ROI_OPT_def roi_opt_def split: sum.splits)
    from prob_coupon_opt_no_nan [OF this len] obtain assigned where
      as: "?col = map Some assigned" by blast
    with len have l: "length assigned = length (rows df)" by (metis length_map)
    from R ROI_OPT_wf [OF assms(1) l assms(2)] as
    have "set assigned \<subseteq> set (coupons df) \<and> R = expected_return df assigned"
      by (auto split: if_splits)
    with as show ?thesis by blast
  qed
  have opt2: "ROI_OPT df ?col = Inr (expected_return df assigned)"
    if as: "?col = map Some assigned" "set assigned \<subseteq> set (coupons df)" for assigned
  proof -
    from as(1) len have l: "length assigned = length (rows df)" by (metis length_map)
    from ROI_OPT_wf [OF assms(1) l assms(2)] as show ?thesis by simp
  qed
  from ROI_BAU_wf [OF assms(1,2)] opt1 opt2 show ?thesis by blast
qed

theorem roi_is_expected_return_witness:
  "wf_df synthetic_users \<and> rows synthetic_users \<noteq> [] \<and> integer_cltvs synthetic_users \<and>
   program_solution synthetic_users synthetic_solution \<and>
   ROI_BAU synthetic_users = Inr 124.88 \<and>
   ROI_OPT synthetic_users (coupon_opt synthetic_solution 10) = Inr 152.86"
proof -
  have b: "set (coupons_bau synthetic_users) \<subseteq> set (coupons synthetic_users)"
    by (simp add: synthetic_coupons_bau synthetic_coupons)
  have o: "set [11, 11, 11, 4, 11, 4, 4, 9, 6, 4] \<subseteq> set (coupons synthetic_users)"
    by (simp add: synthetic_coupons)
  have eb: "expected_return synthetic_users (coupons_bau synthetic_users) = 124.88"
    unfolding synthetic_coupons_bau
    by (simp add: expected_return_def synthetic_users_def acceptance_def column_index_def)
  have eo: "expected_return synthetic_users [11, 11, 11, 4, 11, 4, 4, 9, 6, 4] = 152.86"
    by (simp add: expected_return_def synthetic_users_def acceptance_def column_index_def)
  note t = roi_is_expected_return
    [OF wf_synthetic_users synthetic_rows_nonempty integer_cltvs_synthetic_users
      program_solution_synthetic]
  from t b have bau: "ROI_BAU synthetic_users =
      Inr (expected_return synthetic_users (coupons_bau synthetic_users))"
    by simp
  have c: "coupon_opt synthetic_solution (length (rows synthetic_users)) =
      map Some [11, 11, 11, 4, 11, 4, 4, 9, 6, 4]"
    unfolding synthetic_length by (rule synthetic_coupon_opt)
  from t have "coupon_opt synthetic_solution (length (rows synthetic_users)) =
        map Some [11, 11, 11, 4, 11, 4, 4, 9, 6, 4] \<and>
      set [11, 11, 11, 4, 11, 4, 4, 9, 6, 4] \<subseteq> set (coupons synthetic_users) \<longrightarrow>
      ROI_OPT synthetic_users (coupon_opt synthetic_solution (length (rows synthetic_users))) =
        Inr (expected_return synthetic_users [11, 11, 11, 4, 11, 4, 4, 9, 6, 4])"
    by blast
  with c o have "ROI_OPT synthetic_users (coupon_opt synthetic_solution (length (rows synthetic_users))) =
      Inr (expected_return synthetic_users [11, 11, 11, 4, 11, 4, 4, 9, 6, 4])"
    by blast
  then have opt: "ROI_OPT synthetic_users (coupon_opt synthetic_solution 10) = Inr 152.86"
    unfolding synthetic_length eo .
  from bau have "ROI_BAU synthetic_users = Inr 124.88" unfolding eb .
  with opt wf_synthetic_users synthetic_rows_nonempty integer_cltvs_synthetic_users
    program_solution_synthetic
  show ?thesis by blast
qed


section \<open>The formulated program\<close>

lemma comprehension_total:
  assumes "\<And>y. y \<in> set ys \<Longrightarrow> f y = Inr (g y)"
  shows "comprehension f ys = Inr (map g ys)"
  using assms by (induction ys) auto

lemma map_of_const_keys:
  "map_of (map (\<lambda>i. (i, c)) us) i = (if i \<in> set us then Some c else None)"
  by (induction us) auto

lemma coupons_per_user_get:
  "i < length (rows df) \<Longrightarrow> dict_get (coupons_per_user df) i = Inr (coupons df)"
  by (simp add: dict_get_def coupons_per_user_def set_users_def map_of_const_keys)

lemma df_loc_get: "i < length (rows df) \<Longrightarrow> df_loc df i = Inr (rows df ! i)"
  by (simp add: df_loc_def)

lemma matrices_of_none: "matrices_of df (\<lambda>k. False) m = m"
  by (simp add: matrices_of_def)

lemma matrices_inner_wf:
  assumes "i < length (rows df)" "length (probs (rows df ! i)) = length (coupon_cols df)"
    "set js \<subseteq> set (coupons df)"
  shows "matrices_inner df i js m = Inr (matrices_of df (\<lambda>k. fst k = i \<and> snd k \<in> set js) m)"
  using assms(3)
proof (induction js arbitrary: m)
  case Nil
  then show ?case by (simp add: matrices_of_none)
next
  case (Cons j js)
  let ?m = "\<lparr>x_dict = (x_dict m)((i, j) \<mapsto> LpVariable LpInteger 0 1 (i, j)),
            a_dict = (a_dict m)((i, j) \<mapsto> j),
            c_dict = (c_dict m)((i, j) \<mapsto> acceptance df (rows df ! i) j),
            d_dict = (d_dict m)((i, j) \<mapsto> cltv (rows df ! i) - real_of_int j)\<rparr>"
  from Cons.prems have j: "j \<in> set (coupons df)" and js: "set js \<subseteq> set (coupons df)" by simp_all
  have step: "matrices_inner df i (j # js) m = matrices_inner df i js ?m"
    using j by (simp add: df_loc_get [OF assms(1)] row_getitem_wf [OF assms(2)])
  have "matrices_of df (\<lambda>k. fst k = i \<and> snd k \<in> set js) ?m =
      matrices_of df (\<lambda>k. fst k = i \<and> snd k \<in> set (j # js)) m"
    by (auto simp: matrices_of_def decision_var_def fun_eq_iff)
  with Cons.IH [OF js, of ?m] step show ?case by simp
qed

lemma matrices_outer_wf:
  assumes "wf_df df" "set us \<subseteq> {..<length (rows df)}"
  shows "matrices_outer df us m =
     Inr (matrices_of df (\<lambda>k. fst k \<in> set us \<and> snd k \<in> set (coupons df)) m)"
  using assms(2)
proof (induction us arbitrary: m)
  case Nil
  then show ?case by (simp add: matrices_of_none)
next
  case (Cons i us)
  from Cons.prems have i: "i < length (rows df)" and us: "set us \<subseteq> {..<length (rows df)}"
    by simp_all
  have len: "length (probs (rows df ! i)) = length (coupon_cols df)"
    using i by (intro wf_df_row [OF assms(1)]) simp
  let ?m = "matrices_of df (\<lambda>k. fst k = i \<and> snd k \<in> set (coupons df)) m"
  have step: "matrices_outer df (i # us) m = matrices_outer df us ?m"
    by (simp add: coupons_per_user_get [OF i] matrices_inner_wf [OF i len])
  have "matrices_of df (\<lambda>k. fst k \<in> set us \<and> snd k \<in> set (coupons df)) ?m =
      matrices_of df (\<lambda>k. fst k \<in> set (i # us) \<and> snd k \<in> set (coupons df)) m"
    by (auto simp: matrices_of_def fun_eq_iff)
  with Cons.IH [OF us, of ?m] step show ?case by simp
qed

lemma input_matrices_wf:
  assumes "wf_df df"
  shows "input_matrices df = Inr (model_matrices df)"
proof -
  have "set (set_users df) \<subseteq> {..<length (rows df)}" by (auto simp: set_users_def)
  moreover have "model_keys df = (\<lambda>k. fst k \<in> set (set_users df) \<and> snd k \<in> set (coupons df))"
    by (simp add: fun_eq_iff model_keys_def set_users_def)
  ultimately show ?thesis
    by (simp add: input_matrices_def model_matrices_def matrices_outer_wf [OF assms])
qed

lemma model_matrices_get:
  assumes "i < length (rows df)" "j \<in> set (coupons df)"
  shows "dict_get (x_dict (model_matrices df)) (i, j) = Inr (decision_var (i, j))"
    and "dict_get (a_dict (model_matrices df)) (i, j) = Inr j"
    and "dict_get (c_dict (model_matrices df)) (i, j) = Inr (acceptance df (rows df ! i) j)"
    and "dict_get (d_dict (model_matrices df)) (i, j) = Inr (cltv (rows df ! i) - real_of_int j)"
  using assms by (simp_all add: dict_get_def model_matrices_def matrices_of_def model_keys_def)

subsection \<open>Values of expressions\<close>

lemma expr_value_terms: "expr_value val e = terms_value val (expr_terms e) + expr_constant e"
  by (simp add: expr_value_def terms_value_def)

lemma terms_value_addterm:
  "terms_value val (addterm v x ts) = terms_value val ts + x * val (var_name v)"
  by (induction ts) (auto simp: terms_value_def algebra_simps)

lemma terms_value_fold_addterm:
  "terms_value val (fold (\<lambda>(v, x) ts. addterm v x ts) us ts) =
     terms_value val ts + terms_value val us"
proof (induction us arbitrary: ts)
  case Nil
  show ?case by (simp add: terms_value_def)
next
  case (Cons u us)
  obtain v x where u: "u = (v, x)" by (cases u)
  have "terms_value val (u # us) = x * val (var_name v) + terms_value val us"
    by (simp add: terms_value_def u)
  with Cons [of "addterm v x ts"] show ?case
    by (simp add: u terms_value_addterm)
qed

lemma expr_value_empty: "expr_value val empty_expr = 0"
  by (simp add: expr_value_def empty_expr_def)

lemma expr_value_addInPlace:
  "expr_value val (addInPlace e e') = expr_value val e + expr_value val e'"
  by (simp add: expr_value_terms addInPlace_def terms_value_fold_addterm)

lemma expr_value_fold_addInPlace:
  "expr_value val (fold (\<lambda>e self. addInPlace self e) es acc) =
     expr_value val acc + (\<Sum>e\<leftarrow>es. expr_value val e)"
  by (induction es arbitrary: acc) (simp_all add: expr_value_addInPlace)

lemma expr_value_lpSum: "expr_value val (lpSum es) = (\<Sum>e\<leftarrow>es. expr_value val e)"
  by (simp add: lpSum_def expr_value_fold_addInPlace expr_value_empty)

lemma expr_value_var_expr: "expr_value val (var_expr v) = val (var_name v)"
  by (simp add: expr_value_def var_expr_def)

lemma terms_value_scale:
  "terms_value val (map (\<lambda>(v, x). (v, k * x)) ts) = k * terms_value val ts"
  by (induction ts) (auto simp: terms_value_def algebra_simps)

lemma expr_value_mul_number: "expr_value val (mul_number e k) = k * expr_value val e"
proof (cases "k = 0")
  case True
  then show ?thesis by (simp add: mul_number_def expr_value_empty)
next
  case False
  then have "mul_number e k =
      \<lparr>expr_terms = map (\<lambda>(v, x). (v, k * x)) (expr_terms e), expr_constant = expr_constant e * k\<rparr>"
    by (simp add: mul_number_def)
  then show ?thesis
    by (simp only: expr_value_terms lp_affine.simps terms_value_scale) (simp add: algebra_simps)
qed

lemma var_name_decision_var: "var_name (decision_var k) = k"
  by (simp add: decision_var_def LpVariable_def)

subsection \<open>Variables of expressions\<close>

lemma addterm_vars: "fst ` set (addterm v x ts) = insert v (fst ` set ts)"
proof (induction ts)
  case Nil
  show ?case by simp
next
  case (Cons t ts)
  obtain w y where t: "t = (w, y)" by (cases t)
  show ?case
  proof (cases "v = w")
    case True
    then show ?thesis by (simp add: t)
  next
    case False
    with Cons show ?thesis by (simp add: t insert_commute)
  qed
qed

lemma fold_addterm_vars:
  "fst ` set (fold (\<lambda>(v, x) ts. addterm v x ts) us ts) = fst ` set ts \<union> fst ` set us"
proof (induction us arbitrary: ts)
  case Nil
  show ?case by simp
next
  case (Cons u us)
  obtain v x where u: "u = (v, x)" by (cases u)
  from Cons [of "addterm v x ts"] show ?case
    by (auto simp: u addterm_vars)
qed

lemma expr_vars_addInPlace: "expr_vars (addInPlace e e') = expr_vars e \<union> expr_vars e'"
  by (simp add: expr_vars_def addInPlace_def fold_addterm_vars)

lemma expr_vars_fold_addInPlace:
  "expr_vars (fold (\<lambda>e self. addInPlace self e) es acc) = expr_vars acc \<union> (\<Union>e\<in>set es. expr_vars e)"
  by (induction es arbitrary: acc) (auto simp: expr_vars_addInPlace)

lemma expr_vars_lpSum: "expr_vars (lpSum es) = (\<Union>e\<in>set es. expr_vars e)"
  by (simp add: lpSum_def expr_vars_fold_addInPlace) (simp add: expr_vars_def empty_expr_def)

lemma expr_vars_var_expr: "expr_vars (var_expr v) = {v}"
  by (simp add: expr_vars_def var_expr_def)

lemma map_fst_scale: "map fst (map (\<lambda>(v, x). (v, k * x)) ts) = map fst (ts :: (lp_variable \<times> real) list)"
  by (induction ts) auto

lemma expr_vars_mul_number: "expr_vars (mul_number e k) \<subseteq> expr_vars e"
proof (cases "k = 0")
  case True
  then show ?thesis by (simp add: expr_vars_def mul_number_def empty_expr_def)
next
  case False
  have "set (map fst (map (\<lambda>(v, x). (v, k * x)) (expr_terms e))) = set (map fst (expr_terms e))"
    by (simp only: map_fst_scale)
  then have "fst ` set (map (\<lambda>(v, x). (v, k * x)) (expr_terms e)) = fst ` set (expr_terms e)"
    by (simp only: set_map)
  with False show ?thesis by (simp only: expr_vars_def mul_number_def if_True lp_affine.simps) simp
qed

lemma set_users_lt: "i \<in> set (set_users df) \<longleftrightarrow> i < length (rows df)"
  by (simp add: set_users_def)

lemma user_coupon_pairs_wf: "user_coupon_pairs df = Inr (model_pairs df)"
proof -
  have "comprehension
      (\<lambda>i. case dict_get (coupons_per_user df) i of
              Inl e \<Rightarrow> Inl e
            | Inr js \<Rightarrow> Inr (map (Pair i) js))
      (set_users df) = Inr (map (\<lambda>i. map (Pair i) (coupons df)) (set_users df))"
    by (rule comprehension_total) (simp add: set_users_lt coupons_per_user_get)
  then show ?thesis by (simp add: user_coupon_pairs_def model_pairs_def)
qed

lemma model_pairs_keys: "k \<in> set (model_pairs df) \<longleftrightarrow> model_keys df k"
  by (cases k) (auto simp: model_pairs_def model_keys_def set_users_lt)

lemma user_constraint_wf:
  assumes "i < length (rows df)"
  shows "user_constraint df (model_matrices df) i = Inr (model_user_constraint df i)"
proof -
  have "comprehension (\<lambda>j. dict_get (x_dict (model_matrices df)) (i, j)) (coupons df) =
      Inr (map (\<lambda>j. decision_var (i, j)) (coupons df))"
    by (rule comprehension_total) (simp add: model_matrices_get [OF assms])
  then show ?thesis
    by (simp add: user_constraint_def coupons_per_user_get [OF assms] model_user_constraint_def o_def)
qed

lemma budget_constraint_wf:
  "budget_constraint df (model_matrices df) = Inr (model_budget_constraint df)"
proof -
  have "comprehension
      (\<lambda>k. case dict_get (a_dict (model_matrices df)) k of
              Inl e \<Rightarrow> Inl e
            | Inr av \<Rightarrow>
                (case dict_get (x_dict (model_matrices df)) k of
                   Inl e \<Rightarrow> Inl e
                 | Inr xv \<Rightarrow> Inr (mul_number (var_expr xv) (real_of_int av))))
      (model_pairs df) =
      Inr (map (\<lambda>k. mul_number (var_expr (decision_var k)) (real_of_int (snd k))) (model_pairs df))"
  proof (rule comprehension_total)
    fix k assume "k \<in> set (model_pairs df)"
    then have "fst k < length (rows df)" "snd k \<in> set (coupons df)"
      by (simp_all add: model_pairs_keys model_keys_def)
    from model_matrices_get(1,2) [OF this]
    show "(case dict_get (a_dict (model_matrices df)) k of
              Inl e \<Rightarrow> Inl e
            | Inr av \<Rightarrow>
                (case dict_get (x_dict (model_matrices df)) k of
                   Inl e \<Rightarrow> Inl e
                 | Inr xv \<Rightarrow> Inr (mul_number (var_expr xv) (real_of_int av)))) =
        Inr (mul_number (var_expr (decision_var k)) (real_of_int (snd k)))"
      by simp
  qed
  then show ?thesis
    by (simp add: budget_constraint_def user_coupon_pairs_wf model_budget_constraint_def)
qed

lemma objective_wf: "objective df (model_matrices df) = Inr (model_objective df)"
proof -
  let ?g = "\<lambda>k. mul_number
      (mul_number (var_expr (decision_var k)) (acceptance df (rows df ! fst k) (snd k)))
      (cltv (rows df ! fst k) - real_of_int (snd k))"
  have "comprehension
      (\<lambda>k. case dict_get (x_dict (model_matrices df)) k of
              Inl e \<Rightarrow> Inl e
            | Inr xv \<Rightarrow>
                (case dict_get (c_dict (model_matrices df)) k of
                   Inl e \<Rightarrow> Inl e
                 | Inr cv \<Rightarrow>
                     (case dict_get (d_dict (model_matrices df)) k of
                        Inl e \<Rightarrow> Inl e
                      | Inr dv \<Rightarrow> Inr (mul_number (mul_number (var_expr xv) cv) dv))))
      (model_pairs df) = Inr (map ?g (model_pairs df))"
  proof (rule comprehension_total)
    fix k assume "k \<in> set (model_pairs df)"
    then have "fst k < length (rows df)" "snd k \<in> set (coupons df)"
      by (simp_all add: model_pairs_keys model_keys_def)
    from model_matrices_get(1,3,4) [OF this]
    show "(case dict_get (x_dict (model_matrices df)) k of
              Inl e \<Rightarrow> Inl e
            | Inr xv \<Rightarrow>
                (case dict_get (c_dict (model_matrices df)) k of
                   Inl e \<Rightarrow> Inl e
                 | Inr cv \<Rightarrow>
                     (case dict_get (d_dict (model_matrices df)) k of
                        Inl e \<Rightarrow> Inl e
                      | Inr dv \<Rightarrow> Inr (mul_number (mul_number (var_expr xv) cv) dv)))) = Inr (?g k)"
      by simp
  qed
  then show ?thesis
    by (simp add: objective_def user_coupon_pairs_wf model_objective_def)
qed

lemma dict_set_fresh: "k \<notin> fst ` set kvs \<Longrightarrow> dict_set k v kvs = kvs @ [(k, v)]"
  by (induction kvs) auto

lemma fold_dict_set_distinct:
  "distinct (map fst (acc @ items)) \<Longrightarrow>
     fold (\<lambda>(k, v) dict. dict_set k v dict) items acc = acc @ items"
proof (induction items arbitrary: acc)
  case Nil
  show ?case by simp
next
  case (Cons kv items)
  obtain k v where kv: "kv = (k, v)" by (cases kv)
  from Cons.prems have fresh: "k \<notin> fst ` set acc" by (auto simp: kv)
  from Cons.prems have "distinct (map fst ((acc @ [(k, v)]) @ items))" by (simp add: kv)
  from Cons.IH [OF this] show ?case by (simp add: kv dict_set_fresh [OF fresh])
qed

lemma constraints_wf:
  "constraints df (model_matrices df) =
     Inr (map (\<lambda>i. (int i, model_user_constraint df i)) (set_users df) @
          [(- 1, model_budget_constraint df)])"
proof -
  let ?items = "map (\<lambda>i. (int i, model_user_constraint df i)) (set_users df)"
  have c: "comprehension
      (\<lambda>i. case user_constraint df (model_matrices df) i of
              Inl e \<Rightarrow> Inl e
            | Inr con \<Rightarrow> Inr (int i, con))
      (set_users df) = Inr ?items"
    by (rule comprehension_total) (simp add: set_users_lt user_constraint_wf)
  have keys: "map fst ?items = map int (set_users df)" by (simp add: o_def)
  have d: "distinct (map fst ([] @ ?items))"
    by (simp add: keys distinct_map set_users_def inj_on_def)
  have f: "fold (\<lambda>(k, v) dict. dict_set k v dict) ?items [] = ?items"
    using fold_dict_set_distinct [OF d] by simp
  have "(- 1 :: int) \<notin> fst ` set ?items" by (auto simp: image_iff)
  from dict_set_fresh [OF this]
  show ?thesis by (simp add: constraints_def c budget_constraint_wf f)
qed

lemma add_constraints_fresh:
  "distinct (map fst (prob_constraints p) @ map con_name cons) \<Longrightarrow>
     add_constraints p cons =
       Inr (p\<lparr>prob_constraints := prob_constraints p @ map (\<lambda>c. (con_name c, c)) cons\<rparr>)"
proof (induction cons arbitrary: p)
  case Nil
  show ?case by simp
next
  case (Cons c cons)
  let ?p = "p\<lparr>prob_constraints := prob_constraints p @ [(con_name c, c)]\<rparr>"
  from Cons.prems have fresh: "con_name c \<notin> fst ` set (prob_constraints p)" by auto
  from Cons.prems have "distinct (map fst (prob_constraints ?p) @ map con_name cons)" by auto
  from Cons.IH [OF this] fresh show ?case by (simp add: addConstraint_def)
qed

lemma con_name_user: "con_name (model_user_constraint df i) = ConstraintUser i"
  by (simp add: model_user_constraint_def LpConstraint_def)

lemma con_name_budget: "con_name (model_budget_constraint df) = ConstraintB"
  by (simp add: model_budget_constraint_def LpConstraint_def)

lemma opt_model_wf:
  assumes "wf_df df"
  shows "opt_model df = Inr (model_problem df)"
proof -
  let ?cons = "map (model_user_constraint df) (set_users df) @ [model_budget_constraint df]"
  have names: "map con_name ?cons = map ConstraintUser (set_users df) @ [ConstraintB]"
    by (simp add: con_name_user con_name_budget o_def)
  have "distinct (map con_name ?cons)"
    unfolding names by (auto simp: distinct_map set_users_def inj_on_def)
  then have "distinct (map fst (prob_constraints LpProblem) @ map con_name ?cons)"
    by (simp add: LpProblem_def)
  from add_constraints_fresh [OF this]
  have "add_constraints LpProblem ?cons =
      Inr (LpProblem\<lparr>prob_constraints :=
        map (\<lambda>i. (ConstraintUser i, model_user_constraint df i)) (set_users df) @
        [(ConstraintB, model_budget_constraint df)]\<rparr>)"
    by (simp add: LpProblem_def con_name_user con_name_budget o_def)
  then show ?thesis
    by (simp add: opt_model_def input_matrices_wf [OF assms] constraints_wf objective_wf
        model_problem_def LpProblem_def o_def)
qed

lemma sum_list_concat_map: "sum_list (concat xss) = sum_list (map sum_list (xss :: real list list))"
  by (induction xss) simp_all

lemma sum_model_pairs:
  "(\<Sum>k\<leftarrow>model_pairs df. h k) = (\<Sum>i\<leftarrow>[0..<length (rows df)]. \<Sum>j\<leftarrow>coupons df. (h (i, j) :: real))"
  by (simp add: model_pairs_def set_users_def map_concat sum_list_concat_map o_def)

lemma model_objective_value:
  "expr_value val (model_objective df) =
     (\<Sum>i\<leftarrow>[0..<length (rows df)]. \<Sum>j\<leftarrow>coupons df.
        val (i, j) * acceptance df (rows df ! i) j * (cltv (rows df ! i) - real_of_int j))"
proof -
  have "expr_value val (model_objective df) =
      (\<Sum>k\<leftarrow>model_pairs df.
         val k * acceptance df (rows df ! fst k) (snd k) * (cltv (rows df ! fst k) - real_of_int (snd k)))"
    by (simp add: model_objective_def expr_value_lpSum o_def expr_value_mul_number
        expr_value_var_expr var_name_decision_var mult_ac)
  then show ?thesis by (simp add: sum_model_pairs)
qed

lemma expr_value_LpConstraint:
  "expr_value val (con_expr (LpConstraint e sense rhs name)) = expr_value val e - rhs"
  by (simp add: LpConstraint_def expr_value_def)

lemma model_user_constraint_valid:
  "constraint_valid val (model_user_constraint df i) \<longleftrightarrow>
     (\<Sum>j\<leftarrow>coupons df. val (i, j)) = (if coupons df = [] then 0 else 1)"
proof -
  have s: "con_sense (model_user_constraint df i) = LpConstraintEQ"
    by (simp add: model_user_constraint_def LpConstraint_def)
  have "expr_value val (con_expr (model_user_constraint df i)) =
      (\<Sum>j\<leftarrow>coupons df. val (i, j)) - (if coupons df = [] then 0 else 1)"
    unfolding model_user_constraint_def expr_value_LpConstraint
    by (simp add: expr_value_lpSum o_def expr_value_var_expr var_name_decision_var)
  then show ?thesis by (simp add: constraint_valid_def s)
qed

lemma model_budget_constraint_valid:
  "constraint_valid val (model_budget_constraint df) \<longleftrightarrow>
     (\<Sum>i\<leftarrow>[0..<length (rows df)]. \<Sum>j\<leftarrow>coupons df. real_of_int j * val (i, j)) \<le> budget_b df"
proof -
  have s: "con_sense (model_budget_constraint df) = LpConstraintLE"
    by (simp add: model_budget_constraint_def LpConstraint_def)
  have "expr_value val (con_expr (model_budget_constraint df)) =
      (\<Sum>k\<leftarrow>model_pairs df. real_of_int (snd k) * val k) - budget_b df"
    unfolding model_budget_constraint_def expr_value_LpConstraint
    by (simp add: expr_value_lpSum o_def expr_value_mul_number expr_value_var_expr
        var_name_decision_var)
  then show ?thesis by (simp add: constraint_valid_def s sum_model_pairs)
qed

lemma binary_sum_zero:
  "\<forall>y\<in>set ys. f y = 0 \<or> f y = (1::real) \<Longrightarrow>
     sum_list (map f ys) = 0 \<longleftrightarrow> (\<forall>y\<in>set ys. f y = 0)"
proof (induction ys)
  case Nil
  show ?case by simp
next
  case (Cons y ys)
  then have "0 \<le> sum_list (map f ys)"
    by (intro sum_list_nonneg) auto
  with Cons show ?case by auto
qed

lemma binary_sum_one:
  "distinct ys \<Longrightarrow> \<forall>y\<in>set ys. f y = 0 \<or> f y = (1::real) \<Longrightarrow>
     sum_list (map f ys) = 1 \<longleftrightarrow> (\<exists>!y. y \<in> set ys \<and> f y = 1)"
proof (induction ys)
  case Nil
  show ?case by auto
next
  case (Cons y ys)
  from Cons.prems have bin: "\<forall>z\<in>set ys. f z = 0 \<or> f z = 1" and d: "distinct ys"
    and y: "y \<notin> set ys" and fy: "f y = 0 \<or> f y = 1"
    by simp_all
  from fy show ?case
  proof
    assume 0: "f y = 0"
    then have "(\<exists>!z. z \<in> set (y # ys) \<and> f z = 1) \<longleftrightarrow> (\<exists>!z. z \<in> set ys \<and> f z = 1)"
      by auto
    with Cons.IH [OF d bin] 0 show ?thesis by simp
  next
    assume 1: "f y = 1"
    have "(\<exists>!z. z \<in> set (y # ys) \<and> f z = 1) \<longleftrightarrow> (\<forall>z\<in>set ys. f z = 0)"
    proof
      assume u: "\<exists>!z. z \<in> set (y # ys) \<and> f z = 1"
      show "\<forall>z\<in>set ys. f z = 0"
      proof
        fix z assume z: "z \<in> set ys"
        with y have "z \<noteq> y" by auto
        with u 1 z have "f z \<noteq> 1" by auto
        with bin z show "f z = 0" by auto
      qed
    next
      assume "\<forall>z\<in>set ys. f z = 0"
      with 1 show "\<exists>!z. z \<in> set (y # ys) \<and> f z = 1" by auto
    qed
    with binary_sum_zero [OF bin] 1 show ?thesis by simp
  qed
qed

lemma map_of_append_fresh:
  "k \<notin> fst ` set kvs \<Longrightarrow> map_of (kvs @ [(k, v)]) k = Some v"
  by (induction kvs) auto

lemma model_problem_user:
  assumes "i < length (rows df)"
  shows "map_of (prob_constraints (model_problem df)) (ConstraintUser i) =
     Some (model_user_constraint df i)"
proof -
  have "map_of (map (\<lambda>i. (ConstraintUser i, model_user_constraint df i)) (set_users df))
      (ConstraintUser i) = Some (model_user_constraint df i)"
    using assms by (intro map_of_is_SomeI) (auto simp: distinct_map o_def set_users_def inj_on_def)
  then show ?thesis by (simp add: model_problem_def)
qed

lemma model_problem_budget:
  "map_of (prob_constraints (model_problem df)) ConstraintB = Some (model_budget_constraint df)"
proof -
  have "ConstraintB \<notin> fst ` set (map (\<lambda>i. (ConstraintUser i, model_user_constraint df i)) (set_users df))"
    by auto
  from map_of_append_fresh [OF this] show ?thesis
    unfolding model_problem_def by (simp del: map_of_append)
qed

lemma model_problem_inequalities:
  "filter (\<lambda>(name, con). con_sense con \<noteq> LpConstraintEQ) (prob_constraints (model_problem df)) =
     [(ConstraintB, model_budget_constraint df)]"
  by (simp add: model_problem_def model_user_constraint_def model_budget_constraint_def
      LpConstraint_def filter_map o_def)

lemma expr_vars_LpConstraint: "expr_vars (con_expr (LpConstraint e sense rhs name)) = expr_vars e"
  by (simp add: LpConstraint_def expr_vars_def)

lemma expr_vars_lpSum_keys:
  assumes "\<And>k. k \<in> set ks \<Longrightarrow> expr_vars (g k) \<subseteq> {decision_var k}"
  shows "expr_vars (lpSum (map g ks)) \<subseteq> decision_var ` set ks"
  using assms by (auto simp: expr_vars_lpSum)

lemma model_objective_vars:
  "expr_vars (model_objective df) \<subseteq> decision_var ` {k. model_keys df k}"
proof -
  have "expr_vars (model_objective df) \<subseteq> decision_var ` set (model_pairs df)"
    unfolding model_objective_def
  proof (rule expr_vars_lpSum_keys)
    fix k
    show "expr_vars (mul_number
        (mul_number (var_expr (decision_var k)) (acceptance df (rows df ! fst k) (snd k)))
        (cltv (rows df ! fst k) - real_of_int (snd k))) \<subseteq> {decision_var k}"
      using expr_vars_mul_number expr_vars_var_expr by (metis order_trans)
  qed
  then show ?thesis by (auto simp: model_pairs_keys)
qed

lemma model_budget_constraint_vars:
  "expr_vars (con_expr (model_budget_constraint df)) \<subseteq> decision_var ` {k. model_keys df k}"
proof -
  have "expr_vars (con_expr (model_budget_constraint df)) \<subseteq> decision_var ` set (model_pairs df)"
    unfolding model_budget_constraint_def expr_vars_LpConstraint
  proof (rule expr_vars_lpSum_keys)
    fix k
    show "expr_vars (mul_number (var_expr (decision_var k)) (real_of_int (snd k))) \<subseteq> {decision_var k}"
      using expr_vars_mul_number expr_vars_var_expr by metis
  qed
  then show ?thesis by (auto simp: model_pairs_keys)
qed

lemma model_user_constraint_vars:
  assumes "i < length (rows df)"
  shows "expr_vars (con_expr (model_user_constraint df i)) \<subseteq> decision_var ` {k. model_keys df k}"
proof -
  have "expr_vars (con_expr (model_user_constraint df i)) =
      (\<lambda>j. decision_var (i, j)) ` set (coupons df)"
    unfolding model_user_constraint_def expr_vars_LpConstraint
    by (auto simp: expr_vars_lpSum expr_vars_var_expr)
  with assms show ?thesis by (auto simp: model_keys_def)
qed

lemma model_problem_variables:
  "problem_variables (model_problem df) \<subseteq> decision_var ` {k. model_keys df k}"
proof -
  have "problem_variables (model_problem df) =
      expr_vars (model_objective df) \<union>
      (\<Union>i\<in>set (set_users df). expr_vars (con_expr (model_user_constraint df i))) \<union>
      expr_vars (con_expr (model_budget_constraint df))"
    by (auto simp: problem_variables_def model_problem_def expr_vars_def)
  moreover have "(\<Union>i\<in>set (set_users df). expr_vars (con_expr (model_user_constraint df i)))
      \<subseteq> decision_var ` {k. model_keys df k}"
  proof (rule UN_least)
    fix i assume "i \<in> set (set_users df)"
    then have "i < length (rows df)" by (simp add: set_users_lt)
    then show "expr_vars (con_expr (model_user_constraint df i)) \<subseteq> decision_var ` {k. model_keys df k}"
      by (rule model_user_constraint_vars)
  qed
  ultimately show ?thesis
    using model_objective_vars [of df] model_budget_constraint_vars [of df]
    by (simp only: Un_least)
qed

lemma upt_10: "[0..<10] = [0, 1, 2, 3, 4, 5, 6, 7, 8, 9]"
  by code_simp

lemma x_dict_model: "x_dict (model_matrices df) k = (if model_keys df k then Some (decision_var k) else None)"
  by (simp add: model_matrices_def matrices_of_def)

subsection \<open>The objective\<close>

text \<open>
  C1. On a well-formed table the program is formulated, its sense is maximisation, and the
  value of its objective under any values \<open>x[i, j]\<close> of the decision variables is the sum
  over every customer \<open>i\<close> and every candidate coupon \<open>j\<close> of \<open>x[i, j]\<close> times the acceptance
  probability of coupon \<open>j\<close> for customer \<open>i\<close> times the CLTV of customer \<open>i\<close> minus the
  face value \<open>j\<close>.
\<close>

theorem objective_expected_return:
  assumes "wf_df df"
  shows "\<exists>p obj. opt_model df = Inr p \<and> prob_sense p = LpMaximize \<and>
           prob_objective p = Some obj \<and>
           (\<forall>val. expr_value val obj =
              (\<Sum>i\<leftarrow>[0..<length (rows df)]. \<Sum>j\<leftarrow>coupons df.
                 val (i, j) * acceptance df (rows df ! i) j * (cltv (rows df ! i) - real_of_int j)))"
proof -
  have "prob_sense (model_problem df) = LpMaximize"
    and "prob_objective (model_problem df) = Some (model_objective df)"
    by (simp_all add: model_problem_def)
  with opt_model_wf [OF assms] model_objective_value [of _ df] show ?thesis by blast
qed

theorem objective_expected_return_witness:
  "wf_df synthetic_users \<and>
   (\<exists>p obj. opt_model synthetic_users = Inr p \<and> prob_sense p = LpMaximize \<and>
      prob_objective p = Some obj \<and> expr_value synthetic_optimum obj = 152.86)"
proof -
  have e: "(\<Sum>i\<leftarrow>[0..<length (rows synthetic_users)]. \<Sum>j\<leftarrow>coupons synthetic_users.
      synthetic_optimum (i, j) * acceptance synthetic_users (rows synthetic_users ! i) j *
      (cltv (rows synthetic_users ! i) - real_of_int j)) = 152.86"
    by (simp add: synthetic_length synthetic_coupons upt_10 synthetic_optimum_def)
      (simp add: synthetic_users_def acceptance_def column_index_def)
  from objective_expected_return [OF wf_synthetic_users] obtain p obj where
    "opt_model synthetic_users = Inr p" "prob_sense p = LpMaximize" "prob_objective p = Some obj"
    "\<forall>val. expr_value val obj =
       (\<Sum>i\<leftarrow>[0..<length (rows synthetic_users)]. \<Sum>j\<leftarrow>coupons synthetic_users.
          val (i, j) * acceptance synthetic_users (rows synthetic_users ! i) j *
          (cltv (rows synthetic_users ! i) - real_of_int j))"
    by blast
  then have "opt_model synthetic_users = Inr p \<and> prob_sense p = LpMaximize \<and>
      prob_objective p = Some obj \<and> expr_value synthetic_optimum obj = 152.86"
    using e by simp
  with wf_synthetic_users show ?thesis by blast
qed

subsection \<open>One coupon per customer\<close>

text \<open>
  C2. For every customer \<open>i\<close> the formulated program contains the equality constraint
  \<open>constraint_{i}\<close>, which holds exactly when the sum of the \<open>x[i, j]\<close> over the candidate
  coupons equals 1 (0 when there are no candidates). With a non-empty candidate set and
  binary values, it holds exactly when one and only one candidate coupon is chosen.
\<close>

theorem one_coupon_per_customer:
  assumes "wf_df df" "i < length (rows df)"
  shows "\<exists>p con. opt_model df = Inr p \<and>
           map_of (prob_constraints p) (ConstraintUser i) = Some con \<and>
           con_sense con = LpConstraintEQ \<and>
           (\<forall>val. constraint_valid val con \<longleftrightarrow>
              (\<Sum>j\<leftarrow>coupons df. val (i, j)) = (if coupons df = [] then 0 else 1)) \<and>
           (coupons df \<noteq> [] \<longrightarrow>
              (\<forall>val. (\<forall>j\<in>set (coupons df). val (i, j) = 0 \<or> val (i, j) = 1) \<longrightarrow>
                 (constraint_valid val con \<longleftrightarrow> (\<exists>!j. j \<in> set (coupons df) \<and> val (i, j) = 1))))"
proof -
  let ?con = "model_user_constraint df i"
  have s: "con_sense ?con = LpConstraintEQ"
    by (simp add: model_user_constraint_def LpConstraint_def)
  have d: "distinct (coupons df)" using assms(1) by (simp add: wf_df_def coupons_def)
  show ?thesis
  proof (intro exI [of _ "model_problem df"] exI [of _ ?con] conjI)
    show "opt_model df = Inr (model_problem df)" by (rule opt_model_wf [OF assms(1)])
    show "map_of (prob_constraints (model_problem df)) (ConstraintUser i) = Some ?con"
      by (rule model_problem_user [OF assms(2)])
    show "con_sense ?con = LpConstraintEQ" by (rule s)
    show "\<forall>val. constraint_valid val ?con \<longleftrightarrow>
        (\<Sum>j\<leftarrow>coupons df. val (i, j)) = (if coupons df = [] then 0 else 1)"
      by (simp add: model_user_constraint_valid)
    show "coupons df \<noteq> [] \<longrightarrow>
        (\<forall>val. (\<forall>j\<in>set (coupons df). val (i, j) = 0 \<or> val (i, j) = 1) \<longrightarrow>
           (constraint_valid val ?con \<longleftrightarrow> (\<exists>!j. j \<in> set (coupons df) \<and> val (i, j) = 1)))"
    proof (intro impI allI)
      fix val :: "var_key \<Rightarrow> real"
      assume ne: "coupons df \<noteq> []"
        and bin: "\<forall>j\<in>set (coupons df). val (i, j) = 0 \<or> val (i, j) = 1"
      from binary_sum_one [OF d, of "\<lambda>j. val (i, j)"] bin
      have "(\<Sum>j\<leftarrow>coupons df. val (i, j)) = 1 \<longleftrightarrow>
          (\<exists>!j. j \<in> set (coupons df) \<and> val (i, j) = 1)"
        by simp
      with ne show "constraint_valid val ?con \<longleftrightarrow> (\<exists>!j. j \<in> set (coupons df) \<and> val (i, j) = 1)"
        by (simp add: model_user_constraint_valid)
    qed
  qed
qed

theorem one_coupon_per_customer_witness:
  "wf_df synthetic_users \<and> 7 < length (rows synthetic_users) \<and>
   (\<exists>p con. opt_model synthetic_users = Inr p \<and>
      map_of (prob_constraints p) (ConstraintUser 7) = Some con \<and>
      con_sense con = LpConstraintEQ \<and>
      constraint_valid synthetic_optimum con \<and>
      \<not> constraint_valid (\<lambda>k. 0) con \<and> \<not> constraint_valid (\<lambda>k. 1) con)"
proof -
  have i: "7 < length (rows synthetic_users)" by (simp add: synthetic_users_def)
  have e: "(\<Sum>j\<leftarrow>coupons synthetic_users. synthetic_optimum (7, j)) = 1"
    by (simp add: synthetic_coupons synthetic_optimum_def)
  have z: "(\<Sum>j\<leftarrow>coupons synthetic_users. (\<lambda>k. 0::real) (7::nat, j)) = 0"
    "(\<Sum>j\<leftarrow>coupons synthetic_users. (\<lambda>k. 1::real) (7::nat, j)) = 8"
    by (simp_all add: synthetic_coupons)
  have ne: "coupons synthetic_users \<noteq> []" by (simp add: synthetic_coupons)
  from one_coupon_per_customer [OF wf_synthetic_users i] obtain p con where
    p: "opt_model synthetic_users = Inr p"
      "map_of (prob_constraints p) (ConstraintUser 7) = Some con"
      "con_sense con = LpConstraintEQ" and
    v: "\<forall>val. constraint_valid val con \<longleftrightarrow>
        (\<Sum>j\<leftarrow>coupons synthetic_users. val (7, j)) = (if coupons synthetic_users = [] then 0 else 1)"
    by blast
  from v e ne have 1: "constraint_valid synthetic_optimum con" by simp
  from v z(1) ne have 2: "\<not> constraint_valid (\<lambda>k. 0) con" by simp
  from v z(2) ne have 3: "\<not> constraint_valid (\<lambda>k. 1) con" by simp
  from p 1 2 3 i wf_synthetic_users show ?thesis by blast
qed

subsection \<open>The budget\<close>

text \<open>
  C3. The formulated program contains the constraint \<open>constraint_b\<close>, which holds exactly
  when the sum over all customers and candidate coupons of the coupon's face value times
  \<open>x[i, j]\<close> is at most \<open>b\<close>, one tenth of the sum of all CLTV values. It is the only
  constraint that is not an equality, next to one equality per customer.
\<close>

theorem budget_constraint_global:
  assumes "wf_df df"
  shows "\<exists>p con. opt_model df = Inr p \<and>
           map_of (prob_constraints p) ConstraintB = Some con \<and>
           con_sense con = LpConstraintLE \<and>
           (\<forall>val. constraint_valid val con \<longleftrightarrow>
              (\<Sum>i\<leftarrow>[0..<length (rows df)]. \<Sum>j\<leftarrow>coupons df. real_of_int j * val (i, j))
                \<le> budget_b df) \<and>
           budget_b df = (\<Sum>r\<leftarrow>rows df. cltv r) / 10 \<and>
           filter (\<lambda>(name, c). con_sense c \<noteq> LpConstraintEQ) (prob_constraints p) =
             [(ConstraintB, con)] \<and>
           length (prob_constraints p) = length (rows df) + 1"
proof -
  let ?con = "model_budget_constraint df"
  have s: "con_sense ?con = LpConstraintLE"
    by (simp add: model_budget_constraint_def LpConstraint_def)
  have l: "length (prob_constraints (model_problem df)) = length (rows df) + 1"
    by (simp add: model_problem_def set_users_def)
  have b: "budget_b df = (\<Sum>r\<leftarrow>rows df. cltv r) / 10" by (simp add: budget_b_def)
  from opt_model_wf [OF assms] model_problem_budget [of df] s
    model_budget_constraint_valid [of _ df] b model_problem_inequalities [of df] l
  show ?thesis by blast
qed

theorem budget_constraint_global_witness:
  "wf_df synthetic_users \<and> budget_b synthetic_users = 75.1 \<and>
   (\<exists>p con. opt_model synthetic_users = Inr p \<and>
      map_of (prob_constraints p) ConstraintB = Some con \<and>
      constraint_valid synthetic_optimum con \<and> \<not> constraint_valid (\<lambda>k. 1) con)"
proof -
  have b: "budget_b synthetic_users = 75.1" by (simp add: budget_b_def synthetic_users_def)
  have e: "(\<Sum>i\<leftarrow>[0..<length (rows synthetic_users)]. \<Sum>j\<leftarrow>coupons synthetic_users.
      real_of_int j * synthetic_optimum (i, j)) = 75"
    by (simp add: synthetic_length synthetic_coupons upt_10 synthetic_optimum_def)
  have f: "(\<Sum>i\<leftarrow>[0..<length (rows synthetic_users)]. \<Sum>j\<leftarrow>coupons synthetic_users.
      real_of_int j * (\<lambda>k. 1) (i, j)) = 600"
    by (simp add: synthetic_length synthetic_coupons upt_10)
  from budget_constraint_global [OF wf_synthetic_users] obtain p con where
    p: "opt_model synthetic_users = Inr p" "map_of (prob_constraints p) ConstraintB = Some con" and
    v: "\<forall>val. constraint_valid val con \<longleftrightarrow>
        (\<Sum>i\<leftarrow>[0..<length (rows synthetic_users)]. \<Sum>j\<leftarrow>coupons synthetic_users.
           real_of_int j * val (i, j)) \<le> budget_b synthetic_users"
    by blast
  from v e b have 1: "constraint_valid synthetic_optimum con" by simp
  from v f b have 2: "\<not> constraint_valid (\<lambda>k. 1) con" by simp
  from p 1 2 b wf_synthetic_users show ?thesis by blast
qed

subsection \<open>The decision variables\<close>

text \<open>
  C7. The dictionary \<open>x\<close> has one variable per customer and candidate coupon; each is named
  by its key, of category integer, with lower bound 0 and upper bound 1. Every variable of
  the formulated program is one of them.
\<close>

theorem decision_variables_binary:
  assumes "wf_df df"
  shows "\<exists>m p. input_matrices df = Inr m \<and> opt_model df = Inr p \<and>
           dom (x_dict m) = {(i, j). i < length (rows df) \<and> j \<in> set (coupons df)} \<and>
           (\<forall>k v. x_dict m k = Some v \<longrightarrow>
              var_name v = k \<and> cat v = LpInteger \<and> lowBound v = Some 0 \<and> upBound v = Some 1) \<and>
           (\<forall>v\<in>problem_variables p. x_dict m (var_name v) = Some v)"
proof -
  let ?m = "model_matrices df"
  have d: "dom (x_dict ?m) = {(i, j). i < length (rows df) \<and> j \<in> set (coupons df)}"
    by (auto simp: x_dict_model model_keys_def dom_def)
  have a: "var_name v = k \<and> cat v = LpInteger \<and> lowBound v = Some 0 \<and> upBound v = Some 1"
    if "x_dict ?m k = Some v" for k v
    using that by (auto simp: x_dict_model decision_var_def LpVariable_def split: if_splits)
  have v: "x_dict ?m (var_name v) = Some v" if "v \<in> problem_variables (model_problem df)" for v
  proof -
    from that model_problem_variables [of df] obtain k where "model_keys df k" "v = decision_var k"
      by auto
    then show ?thesis by (simp add: x_dict_model var_name_decision_var)
  qed
  from input_matrices_wf [OF assms] opt_model_wf [OF assms] d a v show ?thesis by blast
qed

theorem decision_variables_binary_witness:
  "wf_df synthetic_users \<and>
   (\<exists>m v. input_matrices synthetic_users = Inr m \<and> x_dict m (7, 9) = Some v \<and>
      cat v = LpInteger \<and> lowBound v = Some 0 \<and> upBound v = Some 1)"
proof -
  from decision_variables_binary [OF wf_synthetic_users] obtain m where
    m: "input_matrices synthetic_users = Inr m"
      "dom (x_dict m) = {(i, j). i < length (rows synthetic_users) \<and> j \<in> set (coupons synthetic_users)}"
      "\<forall>k v. x_dict m k = Some v \<longrightarrow>
         var_name v = k \<and> cat v = LpInteger \<and> lowBound v = Some 0 \<and> upBound v = Some 1"
    by blast
  have "(7, 9) \<in> {(i, j). i < length (rows synthetic_users) \<and> j \<in> set (coupons synthetic_users)}"
    by (simp add: synthetic_coupons synthetic_length)
  with m(2) obtain v where "x_dict m (7, 9) = Some v" by blast
  with m wf_synthetic_users show ?thesis by blast
qed

end
